theory Spec2Isabelle
  imports Complex_Main
begin

section \<open>Smart-city telemetry simulators and validator\<close>

text \<open>
  A shallow embedding of the Python sources
  \<^verbatim>\<open>src/data_generators/traffic_sensor_simulator.py\<close>,
  \<^verbatim>\<open>src/data_generators/weather_simulator.py\<close> and
  \<^verbatim>\<open>src/utils/data_validator.py\<close>.

  Conventions of the embedding:
  \<^item> Python \<open>int\<close> is \<open>int\<close>; loop counters of \<open>range\<close> are \<open>nat\<close>.
  \<^item> Python \<open>float\<close> is \<open>real\<close>: every binary64 value is the real number it denotes and
    the rounding of the individual arithmetic operations is not modelled.
  \<^item> An exception is a value \<open>Inl e\<close> of the result type \<open>py_error + 'a\<close>.
  \<^item> The module \<open>random\<close> is global hidden state in the source. Here every call of a
    function that draws random numbers receives the outcomes of its draws as an explicit
    argument (a record with one field per draw), and a predicate states which outcomes
    the library can produce.
  \<^item> A method that mutates \<open>self\<close> takes the object and returns the updated object.
\<close>

subsection \<open>Python primitives\<close>

datatype py_error = KeyError | ValueError | ZeroDivisionError

text \<open>\<open>int(x)\<close> for a float \<open>x\<close>: truncation towards zero.\<close>

definition py_int :: "real \<Rightarrow> int" where
  "py_int x = (if 0 \<le> x then \<lfloor>x\<rfloor> else \<lceil>x\<rceil>)"

text \<open>\<open>round(x, n)\<close>: the nearest multiple of \<open>10^-n\<close>, a tie going to the even one.\<close>

definition round_half_even :: "real \<Rightarrow> int" where
  "round_half_even x =
     (let f = \<lfloor>x\<rfloor>; d = x - of_int f in
      if d < 1 / 2 then f
      else if 1 / 2 < d then f + 1
      else if even f then f else f + 1)"

definition py_round :: "real \<Rightarrow> nat \<Rightarrow> real" where
  "py_round x n = of_int (round_half_even (x * 10 ^ n)) / 10 ^ n"

text \<open>
  \<open>random.uniform(a, b)\<close> is \<open>a + (b - a) * random()\<close> in the library; \<open>u\<close> is the
  outcome of \<open>random()\<close>, a number in \<open>[0, 1)\<close>.
\<close>

definition unit_draw :: "real \<Rightarrow> bool" where
  "unit_draw u = (0 \<le> u \<and> u < 1)"

definition uniform :: "real \<Rightarrow> real \<Rightarrow> real \<Rightarrow> real" where
  "uniform a b u = a + (b - a) * u"

text \<open>\<open>random.randint(a, b)\<close>: the outcome \<open>d\<close> is an integer with \<open>a \<le> d \<le> b\<close>.\<close>

definition randint_draw :: "int \<Rightarrow> int \<Rightarrow> int \<Rightarrow> bool" where
  "randint_draw a b d = (a \<le> d \<and> d \<le> b)"

text \<open>
  \<open>random.choice(seq)\<close> and \<open>random.choices(seq, weights)[0]\<close> return \<open>seq[k]\<close> for an
  index \<open>k\<close> below \<open>len(seq)\<close>; \<open>k\<close> is the outcome of the draw.
\<close>

definition choice_draw :: "'a list \<Rightarrow> nat \<Rightarrow> bool" where
  "choice_draw xs k = (k < length xs)"

definition random_choice :: "'a list \<Rightarrow> nat \<Rightarrow> 'a" where
  "random_choice xs k = xs ! k"

subsection \<open>Weather simulator\<close>

record WeatherReading =
  station_id :: string
  weather_timestamp :: string
  temperature_f :: real
  humidity :: real
  precipitation_rate :: real
  visibility_miles :: real
  wind_speed_mph :: real
  condition :: string
  weather_latitude :: real
  weather_longitude :: real

record WeatherSimulator =
  city_center :: "real \<times> real"
  current_condition :: string
  condition_duration :: int

text \<open>\<open>WeatherSimulator.__init__\<close>\<close>

definition WeatherSimulator_init :: "real \<times> real \<Rightarrow> WeatherSimulator" where
  "WeatherSimulator_init center =
     \<lparr>city_center = center, current_condition = ''clear'', condition_duration = 0\<rparr>"

text \<open>
  What one call of \<open>generate_weather\<close> takes from outside: the draws of \<open>random\<close>, in the
  order of the source, and the clock reading \<open>datetime.now().isoformat()\<close>.
\<close>

record weather_draws =
  condition_draw :: nat
  duration_draw :: int
  temp_draw :: real
  humidity_draw :: real
  precip_draw :: real
  visibility_draw :: real
  wind_draw :: real
  clock_iso :: string

definition weather_conditions_list :: "string list" where
  "weather_conditions_list =
     [''clear'', ''cloudy'', ''rain'', ''heavy_rain'', ''snow'', ''fog'']"

definition valid_weather_draws :: "weather_draws \<Rightarrow> bool" where
  "valid_weather_draws d =
     (choice_draw weather_conditions_list (condition_draw d) \<and>
      randint_draw 4 20 (duration_draw d) \<and>
      unit_draw (temp_draw d) \<and> unit_draw (humidity_draw d) \<and>
      unit_draw (precip_draw d) \<and> unit_draw (visibility_draw d) \<and>
      unit_draw (wind_draw d))"

record condition_param =
  temp :: "real \<times> real"
  humidity_range :: "real \<times> real"
  precip :: real
  visibility :: real

definition condition_params :: "(string \<times> condition_param) list" where
  "condition_params =
     [(''clear'', \<lparr>temp = (65, 85), humidity_range = (0.3, 0.5), precip = 0, visibility = 10\<rparr>),
      (''cloudy'', \<lparr>temp = (60, 75), humidity_range = (0.5, 0.7), precip = 0, visibility = 10\<rparr>),
      (''rain'', \<lparr>temp = (55, 70), humidity_range = (0.7, 0.9), precip = 0.1, visibility = 5\<rparr>),
      (''heavy_rain'', \<lparr>temp = (50, 65), humidity_range = (0.85, 0.95), precip = 0.5, visibility = 2\<rparr>),
      (''snow'', \<lparr>temp = (20, 35), humidity_range = (0.7, 0.9), precip = 0.2, visibility = 3\<rparr>),
      (''fog'', \<lparr>temp = (55, 65), humidity_range = (0.9, 1.0), precip = 0, visibility = 0.5\<rparr>)]"

text \<open>
  The first statement of \<open>generate_weather\<close>: when the duration counter is zero, a new
  condition and a new duration are drawn.
\<close>

definition redraw_condition :: "WeatherSimulator \<Rightarrow> weather_draws \<Rightarrow> WeatherSimulator" where
  "redraw_condition s d =
     (if condition_duration s = 0
      then s\<lparr>current_condition := random_choice weather_conditions_list (condition_draw d),
             condition_duration := duration_draw d\<rparr>
      else s)"

text \<open>
  \<open>WeatherSimulator.generate_weather\<close>. The object is updated before the parameter
  table is read, so the updated object is returned also when the lookup raises.
\<close>

definition generate_weather ::
  "WeatherSimulator \<Rightarrow> weather_draws \<Rightarrow> (py_error + WeatherReading) \<times> WeatherSimulator" where
  "generate_weather s d =
     (let s1 = redraw_condition s d;
          s2 = s1\<lparr>condition_duration := condition_duration s1 - 1\<rparr>
      in case map_of condition_params (current_condition s2) of
           None \<Rightarrow> (Inl KeyError, s2)
         | Some params \<Rightarrow>
             (Inr \<lparr>station_id = ''WEATHER-CENTRAL-01'',
                   weather_timestamp = clock_iso d,
                   temperature_f =
                     py_round (uniform (fst (temp params)) (snd (temp params)) (temp_draw d)) 1,
                   humidity =
                     py_round (uniform (fst (humidity_range params)) (snd (humidity_range params))
                                 (humidity_draw d)) 2,
                   precipitation_rate = precip params * uniform 0.8 1.2 (precip_draw d),
                   visibility_miles = visibility params * uniform 0.9 1.1 (visibility_draw d),
                   wind_speed_mph = py_round (uniform 0 25 (wind_draw d)) 1,
                   condition = current_condition s2,
                   weather_latitude = fst (city_center s2),
                   weather_longitude = snd (city_center s2)\<rparr>, s2))"

text \<open>
  The loop of \<open>publish_weather_data\<close> calls \<open>generate_weather\<close> once per iteration on the
  same simulator. \<open>weather_run s ds\<close> lists, for the calls with draws \<open>ds\<close>, what each
  call returned and the simulator it left behind.
\<close>

fun weather_run ::
  "WeatherSimulator \<Rightarrow> weather_draws list \<Rightarrow> ((py_error + WeatherReading) \<times> WeatherSimulator) list"
  where
  "weather_run s [] = []"
| "weather_run s (d # ds) =
     (let (r, s') = generate_weather s d in (r, s') # weather_run s' ds)"

text \<open>The simulator on entry to call \<open>i\<close> of the run (calls are numbered from 0).\<close>

definition weather_before :: "WeatherSimulator \<Rightarrow> weather_draws list \<Rightarrow> nat \<Rightarrow> WeatherSimulator" where
  "weather_before s ds i = (s # map snd (weather_run s ds)) ! i"

definition weather_after :: "WeatherSimulator \<Rightarrow> weather_draws list \<Rightarrow> nat \<Rightarrow> WeatherSimulator" where
  "weather_after s ds i = snd (weather_run s ds ! i)"

definition weather_emitted :: "WeatherSimulator \<Rightarrow> weather_draws list \<Rightarrow> nat \<Rightarrow> py_error + WeatherReading" where
  "weather_emitted s ds i = fst (weather_run s ds ! i)"

subsection \<open>String formatting\<close>

text \<open>\<open>str(n)\<close> for a non-negative integer: its decimal digits.\<close>

definition digit_char :: "nat \<Rightarrow> char" where
  "digit_char d = ''0123456789'' ! d"

fun py_str :: "nat \<Rightarrow> string" where
  "py_str n = (if n < 10 then [digit_char n] else py_str (n div 10) @ [digit_char (n mod 10)])"

declare py_str.simps [simp del]

text \<open>
  The format specification \<open>02d\<close> for a non-negative integer: the decimal digits,
  padded with zeros on the left to a width of at least two.
\<close>

definition format_02d :: "nat \<Rightarrow> string" where
  "format_02d n = replicate (2 - length (py_str n)) (CHR ''0'') @ py_str n"

text \<open>
  \<open>chr(n)\<close>: the one-character string of code point \<open>n\<close>, a \<open>ValueError\<close> outside the
  Unicode range. A string that may hold such a character is a list of code points.
\<close>

definition py_chr :: "nat \<Rightarrow> py_error + nat list" where
  "py_chr n = (if n < 0x110000 then Inr [n] else Inl ValueError)"

definition code_points :: "string \<Rightarrow> nat list" where
  "code_points s = map of_char s"

subsection \<open>City grid\<close>

record Intersection =
  intersection_id :: string
  name :: "nat list"
  latitude :: real
  longitude :: real
  lanes_north_south :: int
  lanes_east_west :: int
  has_camera :: bool
  district :: string

record district_config =
  traffic_multiplier :: real
  camera_prob :: real

definition districts :: "(string \<times> district_config) list" where
  "districts =
     [(''downtown'', \<lparr>traffic_multiplier = 1.5, camera_prob = 0.8\<rparr>),
      (''residential'', \<lparr>traffic_multiplier = 0.7, camera_prob = 0.3\<rparr>),
      (''industrial'', \<lparr>traffic_multiplier = 1.2, camera_prob = 0.5\<rparr>),
      (''suburban'', \<lparr>traffic_multiplier = 0.5, camera_prob = 0.2\<rparr>)]"

text \<open>
  The draws of one cell of the grid: two \<open>random.choice([2, 3, 4])\<close> and one
  \<open>random.random()\<close>.
\<close>

record cell_draws =
  lanes_ns_choice :: nat
  lanes_ew_choice :: nat
  camera_draw :: real

definition valid_cell_draws :: "cell_draws \<Rightarrow> bool" where
  "valid_cell_draws c =
     (choice_draw [2, 3, 4 :: int] (lanes_ns_choice c) \<and>
      choice_draw [2, 3, 4 :: int] (lanes_ew_choice c) \<and>
      unit_draw (camera_draw c))"

text \<open>
  Lines 81 to 90 of \<open>_generate_intersections\<close>:
  \<^verbatim>\<open>distance = math.sqrt(i**2 + j**2)\<close> and the chain of comparisons on it.
\<close>

definition cell_distance :: "nat \<Rightarrow> nat \<Rightarrow> real" where
  "cell_distance i j = sqrt (real (i ^ 2 + j ^ 2))"

definition cell_district :: "nat \<Rightarrow> nat \<Rightarrow> string" where
  "cell_district i j =
     (let distance = cell_distance i j in
      if distance < 3 then ''downtown''
      else if distance < 5 then ''residential''
      else if distance < 7 then ''industrial''
      else ''suburban'')"

text \<open>The body of the inner loop: the intersection of cell \<open>(i, j)\<close>.\<close>

definition make_intersection ::
  "real \<times> real \<Rightarrow> int \<Rightarrow> (nat \<Rightarrow> nat \<Rightarrow> cell_draws) \<Rightarrow> nat \<Rightarrow> nat \<Rightarrow> py_error + Intersection" where
  "make_intersection center grid_size draws i j =
     (let (lat_base, lon_base) = center;
          lat = lat_base + (real i - real_of_int grid_size / 2) * 0.01;
          lon = lon_base + (real j - real_of_int grid_size / 2) * 0.01;
          district = cell_district i j
      in case map_of districts district of
           None \<Rightarrow> Inl KeyError
         | Some district_config \<Rightarrow>
             (case py_chr (65 + i) of
                Inl e \<Rightarrow> Inl e
              | Inr c \<Rightarrow>
                  Inr \<lparr>intersection_id = ''INT-'' @ format_02d i @ format_02d j,
                        name = c @ code_points '' St & '' @ code_points (py_str (j + 1))
                                 @ code_points '' Ave'',
                        latitude = py_round lat 6,
                        longitude = py_round lon 6,
                        lanes_north_south = random_choice [2, 3, 4] (lanes_ns_choice (draws i j)),
                        lanes_east_west = random_choice [2, 3, 4] (lanes_ew_choice (draws i j)),
                        has_camera = (camera_draw (draws i j) < camera_prob district_config),
                        district = district\<rparr>))"

text \<open>
  The inner loop \<open>for j in range(grid_size)\<close> appends to the list \<open>intersections\<close>; an
  exception in the body ends the whole call.
\<close>

fun inner_loop ::
  "(nat \<Rightarrow> py_error + Intersection) \<Rightarrow> nat list \<Rightarrow> Intersection list \<Rightarrow> py_error + Intersection list"
  where
  "inner_loop body [] intersections = Inr intersections"
| "inner_loop body (j # js) intersections =
     (case body j of
        Inl e \<Rightarrow> Inl e
      | Inr intersection \<Rightarrow> inner_loop body js (intersections @ [intersection]))"

text \<open>The outer loop \<open>for i in range(grid_size)\<close>.\<close>

fun outer_loop ::
  "(nat \<Rightarrow> nat \<Rightarrow> py_error + Intersection) \<Rightarrow> nat list \<Rightarrow> nat list \<Rightarrow> Intersection list
     \<Rightarrow> py_error + Intersection list"
  where
  "outer_loop body [] js intersections = Inr intersections"
| "outer_loop body (i # is) js intersections =
     (case inner_loop (body i) js intersections of
        Inl e \<Rightarrow> Inl e
      | Inr intersections' \<Rightarrow> outer_loop body is js intersections')"

text \<open>
  \<open>CityGrid._generate_intersections\<close>; \<open>range(grid_size)\<close> is empty for a size that is
  not positive.
\<close>

definition generate_intersections ::
  "real \<times> real \<Rightarrow> int \<Rightarrow> (nat \<Rightarrow> nat \<Rightarrow> cell_draws) \<Rightarrow> py_error + Intersection list" where
  "generate_intersections center grid_size draws =
     outer_loop (make_intersection center grid_size draws)
       [0..<nat grid_size] [0..<nat grid_size] []"

record CityGrid =
  grid_city_center :: "real \<times> real"
  grid_size :: int
  intersections :: "Intersection list"

text \<open>\<open>CityGrid.__init__\<close>\<close>

definition CityGrid_init ::
  "real \<times> real \<Rightarrow> int \<Rightarrow> (nat \<Rightarrow> nat \<Rightarrow> cell_draws) \<Rightarrow> py_error + CityGrid" where
  "CityGrid_init center N draws =
     (case generate_intersections center N draws of
        Inl e \<Rightarrow> Inl e
      | Inr xs \<Rightarrow> Inr \<lparr>grid_city_center = center, grid_size = N, intersections = xs\<rparr>)"

text \<open>
  The assignment rule as the specification words it: the Euclidean distance, in cells,
  from the centre of the grid to the cell, cut into the same four bands. The centre is
  at index \<open>grid_size / 2\<close> on both axes, the point the source subtracts when it computes
  the coordinates of a cell.
\<close>

definition spec_center_distance :: "int \<Rightarrow> nat \<Rightarrow> nat \<Rightarrow> real" where
  "spec_center_distance N i j =
     sqrt ((real i - real_of_int N / 2) ^ 2 + (real j - real_of_int N / 2) ^ 2)"

definition spec_cell_district :: "int \<Rightarrow> nat \<Rightarrow> nat \<Rightarrow> string" where
  "spec_cell_district N i j =
     (let distance = spec_center_distance N i j in
      if distance < 3 then ''downtown''
      else if distance < 5 then ''residential''
      else if distance < 7 then ''industrial''
      else ''suburban'')"

subsection \<open>Traffic simulator\<close>

record TrafficReading =
  sensor_id :: string
  reading_intersection_id :: string
  timestamp :: string
  vehicle_count :: int
  average_speed :: real
  occupancy_rate :: real
  vehicle_types :: "(string \<times> int) list"
  wait_time_seconds :: real
  queue_length :: int
  signal_state :: string
  reading_latitude :: real
  reading_longitude :: real
  reading_district :: string

text \<open>
  What the simulator reads of a \<open>datetime\<close>: its \<open>hour\<close>, which the class keeps in
  \<open>range(24)\<close>, and its \<open>isoformat()\<close>.
\<close>

record datetime =
  hour :: nat
  isoformat :: string

text \<open>\<open>TrafficSimulator.time_of_day_patterns\<close>, in the insertion order of the dictionary.\<close>

definition time_of_day_patterns :: "(string \<times> nat \<times> nat \<times> real) list" where
  "time_of_day_patterns =
     [(''night'', 0, 6, 0.2),
      (''morning_rush'', 6, 9, 1.5),
      (''midday'', 9, 16, 0.8),
      (''evening_rush'', 16, 19, 1.6),
      (''evening'', 19, 24, 0.6)]"

text \<open>
  The loop of \<open>get_traffic_multiplier\<close>: the multiplier of the first band that holds the
  hour, \<open>None\<close> when the loop ends without a \<open>return\<close>.
\<close>

fun matching_band :: "(string \<times> nat \<times> nat \<times> real) list \<Rightarrow> nat \<Rightarrow> real option" where
  "matching_band [] h = None"
| "matching_band ((_, start_hour, end_hour, multiplier) # rest) h =
     (if start_hour \<le> h \<and> h < end_hour then Some multiplier else matching_band rest h)"

text \<open>
  \<open>TrafficSimulator.get_traffic_multiplier\<close>; \<open>u\<close> is the draw of
  \<open>random.uniform(0.8, 1.2)\<close>.
\<close>

definition get_traffic_multiplier :: "datetime \<Rightarrow> real \<Rightarrow> real" where
  "get_traffic_multiplier ts u =
     (case matching_band time_of_day_patterns (hour ts) of
        Some multiplier \<Rightarrow> multiplier * uniform 0.8 1.2 u
      | None \<Rightarrow> 1.0)"

definition weather_conditions :: "(string \<times> real) list" where
  "weather_conditions =
     [(''clear'', 1.0), (''rain'', 0.7), (''heavy_rain'', 0.5), (''snow'', 0.4), (''fog'', 0.6)]"

text \<open>
  \<open>TrafficSimulator.get_weather_impact\<close>; \<open>k\<close> is the draw of \<open>random.choices\<close> over the
  keys of the table.
\<close>

definition get_weather_impact :: "nat \<Rightarrow> py_error + real" where
  "get_weather_impact k =
     (let condition = random_choice (map fst weather_conditions) k in
      case map_of weather_conditions condition of
        None \<Rightarrow> Inl KeyError
      | Some impact \<Rightarrow> Inr impact)"

definition district_multipliers :: "(string \<times> real) list" where
  "district_multipliers =
     [(''downtown'', 1.5), (''residential'', 0.7), (''industrial'', 1.2), (''suburban'', 0.5)]"

text \<open>The draws of one call of \<open>generate_reading\<close>, in the order of the source.\<close>

record reading_draws =
  time_draw :: real
  weather_draw :: nat
  count_jitter :: int
  car_draw :: real
  truck_draw :: real
  motorcycle_draw :: real
  bus_draw :: real
  wait_draw :: real
  signal_draw :: nat

definition valid_reading_draws :: "reading_draws \<Rightarrow> bool" where
  "valid_reading_draws d =
     (unit_draw (time_draw d) \<and>
      choice_draw (map fst weather_conditions) (weather_draw d) \<and>
      randint_draw (- 5) 5 (count_jitter d) \<and>
      unit_draw (car_draw d) \<and> unit_draw (truck_draw d) \<and>
      unit_draw (motorcycle_draw d) \<and> unit_draw (bus_draw d) \<and>
      unit_draw (wait_draw d) \<and>
      choice_draw [''red'', ''yellow'', ''green''] (signal_draw d))"

text \<open>\<open>d[k] = v\<close> on a dictionary kept as the list of its items in insertion order.\<close>

fun dict_set :: "('k \<times> 'v) list \<Rightarrow> 'k \<Rightarrow> 'v \<Rightarrow> ('k \<times> 'v) list" where
  "dict_set [] k v = [(k, v)]"
| "dict_set ((k', v') # kvs) k v =
     (if k' = k then (k, v) # kvs else (k', v') # dict_set kvs k v)"

text \<open>\<open>TrafficSimulator.generate_reading\<close>\<close>

definition generate_reading ::
  "Intersection \<Rightarrow> datetime \<Rightarrow> reading_draws \<Rightarrow> py_error + TrafficReading" where
  "generate_reading intersection ts d =
     (let base_capacity = (lanes_north_south intersection + lanes_east_west intersection) * 10;
          time_multiplier = get_traffic_multiplier ts (time_draw d)
      in case map_of district_multipliers (district intersection) of
           None \<Rightarrow> Inl KeyError
         | Some district_mult \<Rightarrow>
      (case get_weather_impact (weather_draw d) of
           Inl e \<Rightarrow> Inl e
         | Inr weather_mult \<Rightarrow>
      (let vehicle_count0 =
             py_int (real_of_int base_capacity * time_multiplier * district_mult * weather_mult);
           vehicle_count = max 0 (vehicle_count0 + count_jitter d);
           max_capacity = base_capacity * 2
       in if max_capacity = 0 then Inl ZeroDivisionError
          else
      (let occupancy_rate = min 1 (real_of_int vehicle_count / real_of_int max_capacity);
           base_speed = 35;
           average_speed = max 5 (base_speed * (1 - occupancy_rate * 0.7));
           total_vehicles = vehicle_count;
           vehicle_types0 =
             [(''car'', py_int (real_of_int total_vehicles * uniform 0.75 0.85 (car_draw d))),
              (''truck'', py_int (real_of_int total_vehicles * uniform 0.05 0.12 (truck_draw d))),
              (''motorcycle'',
                 py_int (real_of_int total_vehicles * uniform 0.02 0.05 (motorcycle_draw d))),
              (''bus'', py_int (real_of_int total_vehicles * uniform 0.01 0.03 (bus_draw d)))];
           vehicle_types =
             dict_set vehicle_types0 ''car''
               (total_vehicles - sum_list (map snd (filter (\<lambda>(k, v). k \<noteq> ''car'') vehicle_types0)));
           wait_time = occupancy_rate * uniform 30 120 (wait_draw d);
           queue_length = py_int (occupancy_rate * real_of_int base_capacity * 0.5);
           signal_state = random_choice [''red'', ''yellow'', ''green''] (signal_draw d)
       in Inr \<lparr>sensor_id = intersection_id intersection @ ''-SENSOR-01'',
                reading_intersection_id = intersection_id intersection,
                timestamp = isoformat ts,
                vehicle_count = vehicle_count,
                average_speed = py_round average_speed 2,
                occupancy_rate = py_round occupancy_rate 3,
                vehicle_types = vehicle_types,
                wait_time_seconds = py_round wait_time 1,
                queue_length = queue_length,
                signal_state = signal_state,
                reading_latitude = latitude intersection,
                reading_longitude = longitude intersection,
                reading_district = district intersection\<rparr>))))"

text \<open>
  The intersections and draws \<open>generate_reading\<close> meets in the simulator: lane counts as
  \<open>random.choice([2, 3, 4])\<close> gives them, a district of the grid builder.
\<close>

definition wellformed_intersection :: "Intersection \<Rightarrow> bool" where
  "wellformed_intersection x =
     (2 \<le> lanes_north_south x \<and> 2 \<le> lanes_east_west x \<and>
      district x \<in> set (map fst district_multipliers))"

subsection \<open>Event Hub publisher\<close>

text \<open>
  The batch of the channel is a class of the Azure SDK, outside the repository. What
  \<open>send_batch\<close> relies on is taken as two parameters: the capacity \<open>cap\<close> of a batch and
  the size \<open>sz e\<close> an event adds to it. \<open>add\<close> raises \<open>ValueError\<close> when the event would
  take the batch over its capacity, and leaves the batch as it was; \<open>len\<close> counts the
  events added.
\<close>

definition batch_size :: "('e \<Rightarrow> nat) \<Rightarrow> 'e list \<Rightarrow> nat" where
  "batch_size sz batch = sum_list (map sz batch)"

definition batch_add :: "nat \<Rightarrow> ('e \<Rightarrow> nat) \<Rightarrow> 'e list \<Rightarrow> 'e \<Rightarrow> py_error + 'e list" where
  "batch_add cap sz batch e =
     (if batch_size sz batch + sz e > cap then Inl ValueError else Inr (batch @ [e]))"

text \<open>
  The loop of \<open>EventHubPublisher.send_batch\<close>. \<open>sent\<close> lists the batches handed to
  \<open>producer.send_batch\<close> so far, oldest first. The \<open>add\<close> inside the handler is not
  guarded: its exception leaves the method.
\<close>

fun send_loop ::
  "nat \<Rightarrow> ('e \<Rightarrow> nat) \<Rightarrow> 'e list \<Rightarrow> 'e list \<Rightarrow> 'e list list \<Rightarrow> (py_error + 'e list) \<times> 'e list list"
  where
  "send_loop cap sz [] event_data_batch sent = (Inr event_data_batch, sent)"
| "send_loop cap sz (event_data # rest) event_data_batch sent =
     (case batch_add cap sz event_data_batch event_data of
        Inr batch' \<Rightarrow> send_loop cap sz rest batch' sent
      | Inl ValueError \<Rightarrow>
          (case batch_add cap sz [] event_data of
             Inr batch' \<Rightarrow> send_loop cap sz rest batch' (sent @ [event_data_batch])
           | Inl e \<Rightarrow> (Inl e, sent @ [event_data_batch]))
      | Inl e \<Rightarrow> (Inl e, sent))"

text \<open>
  \<open>EventHubPublisher.send_batch\<close>: the outcome of the call and the batches it sent. An
  event stands for \<open>EventData(json.dumps(asdict(reading)))\<close> of its reading.
\<close>

definition send_batch ::
  "nat \<Rightarrow> ('e \<Rightarrow> nat) \<Rightarrow> 'e list \<Rightarrow> (py_error + unit) \<times> 'e list list" where
  "send_batch cap sz readings =
     (case send_loop cap sz readings [] [] of
        (Inl e, sent) \<Rightarrow> (Inl e, sent)
      | (Inr event_data_batch, sent) \<Rightarrow>
          (Inr (), if length event_data_batch > 0 then sent @ [event_data_batch] else sent))"

text \<open>
  The flushing policy read off a list of sent batches: each batch but the last was sent
  because the first event of the next one did not fit into it any more.
\<close>

fun flushed_when_full :: "nat \<Rightarrow> ('e \<Rightarrow> nat) \<Rightarrow> 'e list list \<Rightarrow> bool" where
  "flushed_when_full cap sz (b # b' # bs) =
     (cap < batch_size sz b + sz (hd b') \<and> flushed_when_full cap sz (b' # bs))"
| "flushed_when_full cap sz bs = True"

text \<open>
  The invariant of the loop of \<open>send_batch\<close>: the sent batches are non-empty and within
  the capacity, so is the current batch once a batch has been sent, and the sent
  batches followed by the current one obey the flushing policy.
\<close>

definition send_loop_inv :: "nat \<Rightarrow> ('e \<Rightarrow> nat) \<Rightarrow> 'e list list \<Rightarrow> 'e list \<Rightarrow> bool" where
  "send_loop_inv cap sz sent batch =
     ((\<forall>b\<in>set sent. b \<noteq> [] \<and> batch_size sz b \<le> cap) \<and>
      batch_size sz batch \<le> cap \<and>
      (sent \<noteq> [] \<longrightarrow> batch \<noteq> []) \<and>
      flushed_when_full cap sz (sent @ [batch]))"

subsection \<open>Data validator\<close>

text \<open>
  The values a decoded JSON message holds, and their Python types. \<open>bool\<close> is a
  subclass of \<open>int\<close>, so \<open>isinstance(True, int)\<close> holds.
\<close>

datatype py_value =
    VNone
  | VBool bool
  | VInt int
  | VFloat real
  | VStr string
  | VList "py_value list"
  | VDict "(string \<times> py_value) list"

datatype py_type = T_NoneType | T_bool | T_int | T_float | T_str | T_list | T_dict

fun type_of :: "py_value \<Rightarrow> py_type" where
  "type_of VNone = T_NoneType"
| "type_of (VBool _) = T_bool"
| "type_of (VInt _) = T_int"
| "type_of (VFloat _) = T_float"
| "type_of (VStr _) = T_str"
| "type_of (VList _) = T_list"
| "type_of (VDict _) = T_dict"

definition isinstance :: "py_value \<Rightarrow> py_type \<Rightarrow> bool" where
  "isinstance v t = (type_of v = t \<or> (type_of v = T_bool \<and> t = T_int))"

text \<open>How an f-string prints a type.\<close>

fun type_repr :: "py_type \<Rightarrow> string" where
  "type_repr T_NoneType = ''<class 'NoneType'>''"
| "type_repr T_bool = ''<class 'bool'>''"
| "type_repr T_int = ''<class 'int'>''"
| "type_repr T_float = ''<class 'float'>''"
| "type_repr T_str = ''<class 'str'>''"
| "type_repr T_list = ''<class 'list'>''"
| "type_repr T_dict = ''<class 'dict'>''"

text \<open>\<open>TrafficDataValidator.REQUIRED_FIELDS\<close>, in the insertion order of the dictionary.\<close>

definition REQUIRED_FIELDS :: "(string \<times> py_type) list" where
  "REQUIRED_FIELDS =
     [(''sensor_id'', T_str),
      (''intersection_id'', T_str),
      (''timestamp'', T_str),
      (''vehicle_count'', T_int),
      (''average_speed'', T_float),
      (''occupancy_rate'', T_float),
      (''vehicle_types'', T_dict),
      (''wait_time_seconds'', T_float),
      (''queue_length'', T_int),
      (''signal_state'', T_str),
      (''latitude'', T_float),
      (''longitude'', T_float),
      (''district'', T_str)]"

text \<open>
  The loop of \<open>_validate_schema\<close> over the items of \<open>REQUIRED_FIELDS\<close>; each \<open>continue\<close>
  goes on with the next field. A message is a dictionary with string keys.
\<close>

fun validate_schema_loop ::
  "(string \<rightharpoonup> py_value) \<Rightarrow> (string \<times> py_type) list \<Rightarrow> string list \<Rightarrow> string list" where
  "validate_schema_loop message [] errors = errors"
| "validate_schema_loop message ((field_name, field_type) # rest) errors =
     (case message field_name of
        None \<Rightarrow>
          validate_schema_loop message rest (errors @ [''Missing field: '' @ field_name])
      | Some value \<Rightarrow>
          if value = VNone then
            validate_schema_loop message rest (errors @ [''Null field: '' @ field_name])
          else if \<not> isinstance value field_type then
            validate_schema_loop message rest
              (errors @ [''Invalid type for field '' @ field_name @ '': '' @ type_repr (type_of value)
                           @ '' (expected '' @ type_repr field_type @ '')''])
          else validate_schema_loop message rest errors)"

definition validate_schema :: "(string \<rightharpoonup> py_value) \<Rightarrow> string list" where
  "validate_schema message = validate_schema_loop message REQUIRED_FIELDS []"

text \<open>
  The three categories of a schema violation as the specification names them, and the
  error the validator words for each.
\<close>

datatype violation = Missing | Null | Type_mismatch

definition field_violation :: "(string \<rightharpoonup> py_value) \<Rightarrow> string \<times> py_type \<Rightarrow> violation option" where
  "field_violation message field =
     (case message (fst field) of
        None \<Rightarrow> Some Missing
      | Some value \<Rightarrow>
          if value = VNone then Some Null
          else if isinstance value (snd field) then None
          else Some Type_mismatch)"

definition violation_error ::
  "(string \<rightharpoonup> py_value) \<Rightarrow> string \<times> py_type \<Rightarrow> violation \<Rightarrow> string" where
  "violation_error message field v =
     (case v of
        Missing \<Rightarrow> ''Missing field: '' @ fst field
      | Null \<Rightarrow> ''Null field: '' @ fst field
      | Type_mismatch \<Rightarrow>
          ''Invalid type for field '' @ fst field @ '': ''
            @ (case message (fst field) of None \<Rightarrow> [] | Some value \<Rightarrow> type_repr (type_of value))
            @ '' (expected '' @ type_repr (snd field) @ '')'')"


text \<open>The error, if any, that one required field adds to the report.\<close>

definition schema_error_of :: "(string \<rightharpoonup> py_value) \<Rightarrow> string \<times> py_type \<Rightarrow> string option" where
  "schema_error_of message field =
     map_option (violation_error message field) (field_violation message field)"

subsection \<open>Sample inputs\<close>

text \<open>Concrete inputs at which the theorems below are instantiated.\<close>

definition sample_weather_draws :: weather_draws where
  "sample_weather_draws =
     \<lparr>condition_draw = 2, duration_draw = 4, temp_draw = 1 / 2, humidity_draw = 1 / 2,
      precip_draw = 1 / 2, visibility_draw = 1 / 2, wind_draw = 1 / 2,
      clock_iso = ''2024-01-01T00:00:00''\<rparr>"

definition sample_simulator :: WeatherSimulator where
  "sample_simulator = \<lparr>city_center = (40.7128, -74.0060), current_condition = ''clear'', condition_duration = 1\<rparr>"

definition sample_message :: "string \<rightharpoonup> py_value" where
  "sample_message =
     [''sensor_id'' \<mapsto> VStr ''INT-0000-SENSOR-01'',
      ''intersection_id'' \<mapsto> VStr ''INT-0000'',
      ''timestamp'' \<mapsto> VStr ''2024-01-01T08:00:00'',
      ''vehicle_count'' \<mapsto> VInt 42,
      ''average_speed'' \<mapsto> VFloat 21.5,
      ''occupancy_rate'' \<mapsto> VFloat 0.525,
      ''vehicle_types'' \<mapsto> VDict [(''car'', VInt 35), (''truck'', VInt 4),
                                  (''motorcycle'', VInt 2), (''bus'', VInt 1)],
      ''wait_time_seconds'' \<mapsto> VFloat 39.4,
      ''queue_length'' \<mapsto> VInt 10,
      ''signal_state'' \<mapsto> VStr ''red'',
      ''latitude'' \<mapsto> VFloat 40.6628,
      ''longitude'' \<mapsto> VFloat (- 74.056),
      ''district'' \<mapsto> VStr ''downtown'']"

definition sample_intersection :: Intersection where
  "sample_intersection =
     \<lparr>intersection_id = ''INT-0102'', name = code_points ''B St & 3 Ave'',
      latitude = 40.6728, longitude = - 74.036, lanes_north_south = 3, lanes_east_west = 2,
      has_camera = True, district = ''downtown''\<rparr>"

definition sample_datetime :: datetime where
  "sample_datetime = \<lparr>hour = 12, isoformat = ''2024-01-01T12:00:00''\<rparr>"

definition sample_reading_draws :: reading_draws where
  "sample_reading_draws =
     \<lparr>time_draw = 1 / 2, weather_draw = 0, count_jitter = 2, car_draw = 1 / 2,
      truck_draw = 1 / 2, motorcycle_draw = 1 / 2, bus_draw = 1 / 2, wait_draw = 1 / 2,
      signal_draw = 0\<rparr>"

definition sample_center :: "real \<times> real" where
  "sample_center = (40.7128, - 74.0060)"

definition sample_cell_draws :: "nat \<Rightarrow> nat \<Rightarrow> cell_draws" where
  "sample_cell_draws i j =
     \<lparr>lanes_ns_choice = i mod 3, lanes_ew_choice = j mod 3, camera_draw = 1 / 2\<rparr>"

section \<open>Properties\<close>

subsection \<open>Weather simulator\<close>

lemma generate_weather_snd:
  "snd (generate_weather s d) =
     (redraw_condition s d)\<lparr>condition_duration := condition_duration (redraw_condition s d) - 1\<rparr>"
  by (simp add: generate_weather_def Let_def split: option.split)

lemma generate_weather_condition:
  "fst (generate_weather s d) = Inr r \<Longrightarrow> condition r = current_condition (snd (generate_weather s d))"
  by (auto simp add: generate_weather_def Let_def split: option.splits)

lemma weather_run_length: "length (weather_run s ds) = length ds"
  by (induction ds arbitrary: s) (auto simp: Let_def split: prod.split)

lemma weather_run_nth:
  "i < length ds \<Longrightarrow> weather_run s ds ! i = generate_weather (weather_before s ds i) (ds ! i)"
proof (induction ds arbitrary: s i)
  case Nil
  then show ?case by simp
next
  case (Cons d ds)
  show ?case
  proof (cases i)
    case 0
    then show ?thesis by (simp add: weather_before_def split: prod.split)
  next
    case (Suc k)
    with Cons.prems have k: "k < length ds" by simp
    obtain r s' where g: "generate_weather s d = (r, s')" by (cases "generate_weather s d")
    have "weather_before s (d # ds) (Suc k) = weather_before s' ds k"
      using g by (simp add: weather_before_def)
    then show ?thesis using Cons.IH[OF k, of s'] g Suc by simp
  qed
qed

lemma weather_before_Suc:
  "i < length ds \<Longrightarrow> weather_before s ds (Suc i) = weather_after s ds i"
  by (simp add: weather_before_def weather_after_def weather_run_length)

lemma weather_before_0: "weather_before s ds 0 = s"
  by (simp add: weather_before_def)

lemma redraw_condition_keeps:
  "condition_duration s \<noteq> 0 \<Longrightarrow> redraw_condition s d = s"
  by (simp add: redraw_condition_def)

lemma redraw_condition_duration:
  "condition_duration s = 0 \<Longrightarrow> condition_duration (redraw_condition s d) = duration_draw d"
  by (simp add: redraw_condition_def)

lemma weather_after_eq:
  "j < length ds \<Longrightarrow>
   weather_after s ds j = snd (generate_weather (weather_before s ds j) (ds ! j))"
  by (simp add: weather_after_def weather_run_nth)

lemma weather_emitted_eq:
  "j < length ds \<Longrightarrow>
   weather_emitted s ds j = fst (generate_weather (weather_before s ds j) (ds ! j))"
  by (simp add: weather_emitted_def weather_run_nth)

lemma weather_emitted_condition:
  assumes "j < length ds" and "weather_emitted s ds j = Inr r"
  shows "condition r = current_condition (weather_after s ds j)"
  using assms generate_weather_condition[of "weather_before s ds j" "ds ! j" r]
  by (simp add: weather_after_eq weather_emitted_eq)

lemma weather_after_condition:
  assumes "j < length ds"
    and "current_condition (weather_after s ds j) \<noteq> current_condition (weather_before s ds j)"
  shows "condition_duration (weather_before s ds j) = 0"
proof (rule ccontr)
  assume "condition_duration (weather_before s ds j) \<noteq> 0"
  then have "redraw_condition (weather_before s ds j) (ds ! j) = weather_before s ds j"
    by (rule redraw_condition_keeps)
  then have "current_condition (weather_after s ds j) = current_condition (weather_before s ds j)"
    using assms(1) by (simp add: weather_after_eq generate_weather_snd)
  with assms(2) show False by simp
qed

text \<open>
  Claim C5. In a run of \<open>generate_weather\<close> calls from any simulator \<open>s\<close>, consider call
  \<open>j\<close>. If the condition it emits differs from the condition the previous call emitted
  (equally: if the call changes \<open>current_condition\<close>), the duration counter was zero on
  entry. When the counter is zero on entry, the new duration is the outcome of
  \<open>randint(4, 20)\<close>, an integer from 4 to 20; otherwise nothing is redrawn. In both cases
  the call then lowers the counter by exactly one.
\<close>

theorem weather_condition_sticky:
  assumes "j < length ds"
  shows "(\<forall>r r'. 0 < j \<and> weather_emitted s ds (j - 1) = Inr r \<and> weather_emitted s ds j = Inr r'
            \<and> condition r' \<noteq> condition r
            \<longrightarrow> condition_duration (weather_before s ds j) = 0)
       \<and> (current_condition (weather_after s ds j) \<noteq> current_condition (weather_before s ds j)
            \<longrightarrow> condition_duration (weather_before s ds j) = 0)
       \<and> (condition_duration (weather_before s ds j) = 0 \<and> valid_weather_draws (ds ! j)
            \<longrightarrow> condition_duration (redraw_condition (weather_before s ds j) (ds ! j)) = duration_draw (ds ! j)
              \<and> 4 \<le> duration_draw (ds ! j) \<and> duration_draw (ds ! j) \<le> 20)
       \<and> (condition_duration (weather_before s ds j) \<noteq> 0
            \<longrightarrow> redraw_condition (weather_before s ds j) (ds ! j) = weather_before s ds j)
       \<and> condition_duration (weather_after s ds j)
            = condition_duration (redraw_condition (weather_before s ds j) (ds ! j)) - 1"
proof (intro conjI allI impI)
  fix r r'
  assume a: "0 < j \<and> weather_emitted s ds (j - 1) = Inr r \<and> weather_emitted s ds j = Inr r'
            \<and> condition r' \<noteq> condition r"
  then have j1: "j - 1 < length ds" and sj: "Suc (j - 1) = j" using assms by simp_all
  have "condition r = current_condition (weather_after s ds (j - 1))"
    using a j1 by (simp add: weather_emitted_condition)
  also have "\<dots> = current_condition (weather_before s ds j)"
    using weather_before_Suc[OF j1, of s] sj by simp
  finally have "condition r = current_condition (weather_before s ds j)" .
  moreover have "condition r' = current_condition (weather_after s ds j)"
    using a assms by (simp add: weather_emitted_condition)
  ultimately show "condition_duration (weather_before s ds j) = 0"
    using a weather_after_condition[OF assms, of s] by simp
next
  assume "current_condition (weather_after s ds j) \<noteq> current_condition (weather_before s ds j)"
  then show "condition_duration (weather_before s ds j) = 0"
    by (rule weather_after_condition[OF assms])
next
  assume a: "condition_duration (weather_before s ds j) = 0 \<and> valid_weather_draws (ds ! j)"
  then show "condition_duration (redraw_condition (weather_before s ds j) (ds ! j)) = duration_draw (ds ! j)"
    by (simp add: redraw_condition_duration)
  from a show "4 \<le> duration_draw (ds ! j)" "duration_draw (ds ! j) \<le> 20"
    by (simp_all add: valid_weather_draws_def randint_draw_def)
next
  assume "condition_duration (weather_before s ds j) \<noteq> 0"
  then show "redraw_condition (weather_before s ds j) (ds ! j) = weather_before s ds j"
    by (rule redraw_condition_keeps)
next
  show "condition_duration (weather_after s ds j)
            = condition_duration (redraw_condition (weather_before s ds j) (ds ! j)) - 1"
    using assms by (simp add: weather_after_eq generate_weather_snd)
qed

lemma generate_weather_duration_step:
  assumes "0 \<le> condition_duration s" and "valid_weather_draws d"
  shows "0 \<le> condition_duration (snd (generate_weather s d))"
proof (cases "condition_duration s = 0")
  case True
  then have "condition_duration (snd (generate_weather s d)) = duration_draw d - 1"
    by (simp add: generate_weather_snd redraw_condition_duration)
  moreover have "4 \<le> duration_draw d"
    using assms(2) by (simp add: valid_weather_draws_def randint_draw_def)
  ultimately show ?thesis by simp
next
  case False
  then have "condition_duration (snd (generate_weather s d)) = condition_duration s - 1"
    by (simp add: generate_weather_snd redraw_condition_keeps)
  with False assms(1) show ?thesis by simp
qed

lemma weather_before_nonneg:
  assumes "0 \<le> condition_duration s" and "\<forall>d\<in>set ds. valid_weather_draws d"
  shows "j \<le> length ds \<Longrightarrow> 0 \<le> condition_duration (weather_before s ds j)"
proof (induction j)
  case 0
  then show ?case using assms(1) by (simp add: weather_before_0)
next
  case (Suc j)
  then have j: "j < length ds" by simp
  then have "valid_weather_draws (ds ! j)" using assms(2) by simp
  moreover have "0 \<le> condition_duration (weather_before s ds j)" using Suc by simp
  ultimately have "0 \<le> condition_duration (snd (generate_weather (weather_before s ds j) (ds ! j)))"
    by (simp add: generate_weather_duration_step)
  then show ?case using j by (simp add: weather_before_Suc weather_after_eq)
qed

text \<open>
  Claim C10. Starting from the initial simulator (condition \<open>clear\<close>, duration 0), the
  duration counter is non-negative on entry to and on exit from every call: a call
  entered with counter zero leaves it between 3 and 19, any other call leaves the
  previous value minus one.
\<close>

theorem weather_duration_never_negative:
  assumes "\<forall>d\<in>set ds. valid_weather_draws d" and "j < length ds"
  shows "0 \<le> condition_duration (weather_before (WeatherSimulator_init c) ds j)
       \<and> 0 \<le> condition_duration (weather_after (WeatherSimulator_init c) ds j)
       \<and> (condition_duration (weather_before (WeatherSimulator_init c) ds j) = 0
            \<longrightarrow> 3 \<le> condition_duration (weather_after (WeatherSimulator_init c) ds j)
              \<and> condition_duration (weather_after (WeatherSimulator_init c) ds j) \<le> 19)
       \<and> (condition_duration (weather_before (WeatherSimulator_init c) ds j) \<noteq> 0
            \<longrightarrow> condition_duration (weather_after (WeatherSimulator_init c) ds j)
                = condition_duration (weather_before (WeatherSimulator_init c) ds j) - 1)"
proof -
  let ?s = "WeatherSimulator_init c"
  have init: "0 \<le> condition_duration ?s" by (simp add: WeatherSimulator_init_def)
  have b: "0 \<le> condition_duration (weather_before ?s ds j)"
    using weather_before_nonneg[OF init assms(1), of j] assms(2) by simp
  have a: "0 \<le> condition_duration (weather_after ?s ds j)"
    using weather_before_nonneg[OF init assms(1), of "Suc j"] assms(2)
    by (simp add: weather_before_Suc)
  have v: "valid_weather_draws (ds ! j)" using assms by simp
  have z: "condition_duration (weather_before ?s ds j) = 0
            \<longrightarrow> 3 \<le> condition_duration (weather_after ?s ds j)
              \<and> condition_duration (weather_after ?s ds j) \<le> 19"
    using v assms(2)
    by (simp add: weather_after_eq generate_weather_snd redraw_condition_duration
        valid_weather_draws_def randint_draw_def)
  have n: "condition_duration (weather_before ?s ds j) \<noteq> 0
            \<longrightarrow> condition_duration (weather_after ?s ds j)
                = condition_duration (weather_before ?s ds j) - 1"
    using assms(2) by (simp add: weather_after_eq generate_weather_snd redraw_condition_keeps)
  from b a z n show ?thesis by simp
qed

lemma sample_weather_draws_valid: "valid_weather_draws sample_weather_draws"
  by (simp add: valid_weather_draws_def sample_weather_draws_def choice_draw_def
      weather_conditions_list_def randint_draw_def unit_draw_def)

theorem weather_condition_sticky_witness:
  "(1::nat) < length [sample_weather_draws, sample_weather_draws]
   \<and> valid_weather_draws ([sample_weather_draws, sample_weather_draws] ! 1)
   \<and> condition_duration (weather_before sample_simulator [sample_weather_draws, sample_weather_draws] 1) = 0
   \<and> current_condition (weather_before sample_simulator [sample_weather_draws, sample_weather_draws] 1) = ''clear''
   \<and> current_condition (weather_after sample_simulator [sample_weather_draws, sample_weather_draws] 1) = ''rain''
   \<and> condition_duration (weather_after sample_simulator [sample_weather_draws, sample_weather_draws] 1) = 3
   \<and> (\<exists>r r'. weather_emitted sample_simulator [sample_weather_draws, sample_weather_draws] 0 = Inr r
          \<and> weather_emitted sample_simulator [sample_weather_draws, sample_weather_draws] 1 = Inr r'
          \<and> condition r = ''clear'' \<and> condition r' = ''rain'')"
  using weather_condition_sticky[of 1 "[sample_weather_draws, sample_weather_draws]" sample_simulator]
    sample_weather_draws_valid
  by (simp add: weather_before_def weather_after_def weather_emitted_def generate_weather_def
      redraw_condition_def sample_simulator_def sample_weather_draws_def random_choice_def
      weather_conditions_list_def condition_params_def Let_def)

theorem weather_duration_never_negative_witness:
  "list_all valid_weather_draws [sample_weather_draws, sample_weather_draws]
   \<and> (1::nat) < length [sample_weather_draws, sample_weather_draws]
   \<and> condition_duration (weather_before (WeatherSimulator_init (0, 0)) [sample_weather_draws, sample_weather_draws] 0) = 0
   \<and> condition_duration (weather_after (WeatherSimulator_init (0, 0)) [sample_weather_draws, sample_weather_draws] 0) = 3
   \<and> condition_duration (weather_after (WeatherSimulator_init (0, 0)) [sample_weather_draws, sample_weather_draws] 1) = 2"
  using weather_duration_never_negative[of "[sample_weather_draws, sample_weather_draws]" 0 "(0, 0)"]
    weather_duration_never_negative[of "[sample_weather_draws, sample_weather_draws]" 1 "(0, 0)"]
    sample_weather_draws_valid
  by (simp add: weather_before_def weather_after_def generate_weather_def
      redraw_condition_def WeatherSimulator_init_def sample_weather_draws_def random_choice_def
      weather_conditions_list_def condition_params_def Let_def)

subsection \<open>Data validator\<close>

lemma validate_schema_loop_eq:
  "validate_schema_loop m fs errs = errs @ List.map_filter (schema_error_of m) fs"
proof (induction fs arbitrary: errs)
  case Nil
  then show ?case by (simp add: List.map_filter_simps)
next
  case (Cons f fs)
  obtain n t where f: "f = (n, t)" by (cases f)
  show ?case
    by (simp add: f Cons.IH List.map_filter_simps schema_error_of_def field_violation_def
        violation_error_def split: option.split)
qed

lemma validate_schema_eq:
  "validate_schema m = List.map_filter (schema_error_of m) REQUIRED_FIELDS"
  by (simp add: validate_schema_def validate_schema_loop_eq)

lemma length_map_filter:
  "length (List.map_filter g xs) = length (filter (\<lambda>x. g x \<noteq> None) xs)"
  by (induction xs) (auto simp: List.map_filter_simps split: option.split)

lemma map_filter_empty_iff:
  "List.map_filter g xs = [] \<longleftrightarrow> (\<forall>x\<in>set xs. g x = None)"
  by (induction xs) (auto simp: List.map_filter_simps split: option.split)

lemma field_violation_None_iff:
  "field_violation m f = None \<longleftrightarrow> (\<exists>v. m (fst f) = Some v \<and> v \<noteq> VNone \<and> isinstance v (snd f))"
  by (auto simp: field_violation_def split: option.splits)

lemma schema_error_of_None_iff: "schema_error_of m f = None \<longleftrightarrow> field_violation m f = None"
  by (simp add: schema_error_of_def)

lemma map_filter_member:
  "x \<in> set xs \<Longrightarrow> g x = Some y \<Longrightarrow> y \<in> set (List.map_filter g xs)"
  by (induction xs) (auto simp: List.map_filter_simps split: option.split)

lemma validate_schema_reports:
  assumes "f \<in> set REQUIRED_FIELDS" and "field_violation m f = Some v"
  shows "violation_error m f v \<in> set (validate_schema m)"
  unfolding validate_schema_eq
  by (rule map_filter_member[OF assms(1)]) (simp add: schema_error_of_def assms(2))

lemma REQUIRED_FIELDS_length: "length REQUIRED_FIELDS = 13"
  by (simp add: REQUIRED_FIELDS_def)

text \<open>
  Claim C7. The schema phase looks at all 13 required fields and reports, in the order of
  the fields, exactly one error for every field that is missing, null or of the wrong
  type, and nothing for the others. So the report is empty if and only if every required
  field is present, non-null and of its expected type, and a message without
  \<open>sensor_id\<close> gets the error \<open>Missing field: sensor_id\<close>.
\<close>

theorem validate_schema_complete_report:
  "length REQUIRED_FIELDS = 13
   \<and> validate_schema m = List.map_filter (schema_error_of m) REQUIRED_FIELDS
   \<and> length (validate_schema m) = length (filter (\<lambda>f. field_violation m f \<noteq> None) REQUIRED_FIELDS)
   \<and> (validate_schema m = [] \<longleftrightarrow>
        (\<forall>f\<in>set REQUIRED_FIELDS. \<exists>v. m (fst f) = Some v \<and> v \<noteq> VNone \<and> isinstance v (snd f)))
   \<and> (m ''sensor_id'' = None \<longrightarrow> ''Missing field: sensor_id'' \<in> set (validate_schema m))"
proof (intro conjI)
  show "length REQUIRED_FIELDS = 13" by (rule REQUIRED_FIELDS_length)
  show "validate_schema m = List.map_filter (schema_error_of m) REQUIRED_FIELDS"
    by (rule validate_schema_eq)
  show "length (validate_schema m) = length (filter (\<lambda>f. field_violation m f \<noteq> None) REQUIRED_FIELDS)"
    by (simp add: validate_schema_eq length_map_filter schema_error_of_None_iff)
  show "validate_schema m = [] \<longleftrightarrow>
        (\<forall>f\<in>set REQUIRED_FIELDS. \<exists>v. m (fst f) = Some v \<and> v \<noteq> VNone \<and> isinstance v (snd f))"
    by (simp add: validate_schema_eq map_filter_empty_iff schema_error_of_None_iff
        field_violation_None_iff)
  show "m ''sensor_id'' = None \<longrightarrow> ''Missing field: sensor_id'' \<in> set (validate_schema m)"
  proof
    assume a: "m ''sensor_id'' = None"
    have "(''sensor_id'', T_str) \<in> set REQUIRED_FIELDS" by (simp add: REQUIRED_FIELDS_def)
    moreover have "field_violation m (''sensor_id'', T_str) = Some Missing"
      using a by (simp add: field_violation_def)
    ultimately have "violation_error m (''sensor_id'', T_str) Missing \<in> set (validate_schema m)"
      by (rule validate_schema_reports)
    then show "''Missing field: sensor_id'' \<in> set (validate_schema m)"
      by (simp add: violation_error_def)
  qed
qed

theorem validate_schema_complete_report_witness:
  "validate_schema sample_message = []
   \<and> (sample_message(''sensor_id'' := None)) ''sensor_id'' = None
   \<and> validate_schema (sample_message(''sensor_id'' := None)) = [''Missing field: sensor_id'']
   \<and> validate_schema (sample_message(''latitude'' \<mapsto> VInt 40, ''district'' \<mapsto> VNone))
       = [''Invalid type for field latitude: <class 'int'> (expected <class 'float'>)'',
          ''Null field: district'']"
  using validate_schema_complete_report[of "sample_message(''sensor_id'' := None)"]
    validate_schema_complete_report[of sample_message]
  by (simp add: validate_schema_def REQUIRED_FIELDS_def sample_message_def isinstance_def)

subsection \<open>Event Hub publisher\<close>

lemma batch_size_simps [simp]:
  "batch_size sz [] = 0"
  "batch_size sz (xs @ ys) = batch_size sz xs + batch_size sz ys"
  "batch_size sz (x # xs) = sz x + batch_size sz xs"
  by (simp_all add: batch_size_def)

lemma flushed_when_full_snoc2:
  "flushed_when_full cap sz (bs @ [b, b']) =
     (flushed_when_full cap sz (bs @ [b]) \<and> cap < batch_size sz b + sz (hd b'))"
proof (induction bs)
  case Nil
  then show ?case by simp
next
  case (Cons a bs)
  then show ?case by (cases bs) auto
qed

lemma flushed_when_full_grow:
  "batch \<noteq> [] \<Longrightarrow>
   flushed_when_full cap sz (bs @ [batch @ [r]]) = flushed_when_full cap sz (bs @ [batch])"
proof (induction bs)
  case Nil
  then show ?case by simp
next
  case (Cons a bs)
  then show ?case by (cases bs) auto
qed

lemma send_loop_inv_add:
  assumes "send_loop_inv cap sz sent batch" and "batch_size sz batch + sz r \<le> cap"
  shows "send_loop_inv cap sz sent (batch @ [r])"
proof (cases "batch = []")
  case True
  with assms(1) have "sent = []" by (auto simp: send_loop_inv_def)
  with True assms(2) show ?thesis by (simp add: send_loop_inv_def)
next
  case False
  with assms show ?thesis by (simp add: send_loop_inv_def flushed_when_full_grow)
qed

lemma send_loop_inv_flush:
  assumes "send_loop_inv cap sz sent batch"
    and "cap < batch_size sz batch + sz r" and "sz r \<le> cap"
  shows "send_loop_inv cap sz (sent @ [batch]) [r]"
proof -
  have "batch \<noteq> []" using assms(2,3) by auto
  moreover have "flushed_when_full cap sz (sent @ [batch, [r]])"
    using assms(1,2) by (simp add: flushed_when_full_snoc2 send_loop_inv_def)
  ultimately show ?thesis using assms by (simp add: send_loop_inv_def)
qed

lemma send_loop_ok:
  assumes "\<forall>r\<in>set rs. sz r \<le> cap" and "send_loop_inv cap sz sent batch"
  shows "\<exists>b sent'. send_loop cap sz rs batch sent = (Inr b, sent')
           \<and> concat sent' @ b = concat sent @ batch @ rs
           \<and> send_loop_inv cap sz sent' b"
  using assms
proof (induction rs arbitrary: batch sent)
  case Nil
  then show ?case by simp
next
  case (Cons r rs)
  then have r: "sz r \<le> cap" and rs: "\<forall>r\<in>set rs. sz r \<le> cap" by simp_all
  show ?case
  proof (cases "cap < batch_size sz batch + sz r")
    case False
    then have inv: "send_loop_inv cap sz sent (batch @ [r])"
      using Cons.prems(2) by (simp add: send_loop_inv_add)
    from Cons.IH[OF rs inv] False show ?thesis by (simp add: batch_add_def)
  next
    case True
    then have inv: "send_loop_inv cap sz (sent @ [batch]) [r]"
      using Cons.prems(2) r by (simp add: send_loop_inv_flush)
    from Cons.IH[OF rs inv] True r show ?thesis by (simp add: batch_add_def)
  qed
qed

lemma send_loop_error:
  assumes "r \<in> set rs" and "cap < sz r"
  shows "\<exists>sent'. send_loop cap sz rs batch sent = (Inl ValueError, sent')"
  using assms
proof (induction rs arbitrary: batch sent)
  case Nil
  then show ?case by simp
next
  case (Cons x rs)
  show ?case
  proof (cases "cap < sz x")
    case True
    then show ?thesis by (simp add: batch_add_def)
  next
    case False
    with Cons.prems have "r \<in> set rs" by auto
    from Cons.IH[OF this Cons.prems(2)] False show ?thesis
      by (simp add: batch_add_def)
  qed
qed

lemma send_loop_prefix:
  "\<exists>b k. k \<le> length rs \<and>
     concat (snd (send_loop cap sz rs batch sent)) @ b = concat sent @ batch @ take k rs"
proof (induction rs arbitrary: batch sent)
  case Nil
  then show ?case by simp
next
  case (Cons r rs)
  show ?case
  proof (cases "cap < batch_size sz batch + sz r")
    case False
    obtain b k where "k \<le> length rs"
      "concat (snd (send_loop cap sz rs (batch @ [r]) sent)) @ b = concat sent @ (batch @ [r]) @ take k rs"
      using Cons.IH[of "batch @ [r]" sent] by blast
    then have "Suc k \<le> length (r # rs) \<and>
        concat (snd (send_loop cap sz (r # rs) batch sent)) @ b = concat sent @ batch @ take (Suc k) (r # rs)"
      using False by (simp add: batch_add_def)
    then show ?thesis by blast
  next
    case True
    show ?thesis
    proof (cases "cap < sz r")
      case True
      with \<open>cap < batch_size sz batch + sz r\<close>
      have "0 \<le> length (r # rs) \<and>
        concat (snd (send_loop cap sz (r # rs) batch sent)) @ [] = concat sent @ batch @ take 0 (r # rs)"
        by (simp add: batch_add_def)
      then show ?thesis by blast
    next
      case False
      obtain b k where "k \<le> length rs"
        "concat (snd (send_loop cap sz rs [r] (sent @ [batch]))) @ b = concat (sent @ [batch]) @ [r] @ take k rs"
        using Cons.IH[of "[r]" "sent @ [batch]"] by blast
      then have "Suc k \<le> length (r # rs) \<and>
        concat (snd (send_loop cap sz (r # rs) batch sent)) @ b = concat sent @ batch @ take (Suc k) (r # rs)"
        using False True by (simp add: batch_add_def)
      then show ?thesis by blast
    qed
  qed
qed

lemma send_batch_ok:
  assumes "\<forall>r\<in>set rs. sz r \<le> cap"
  shows "fst (send_batch cap sz rs) = Inr ()
       \<and> concat (snd (send_batch cap sz rs)) = rs
       \<and> (\<forall>b\<in>set (snd (send_batch cap sz rs)). b \<noteq> [] \<and> batch_size sz b \<le> cap)
       \<and> flushed_when_full cap sz (snd (send_batch cap sz rs))"
proof -
  have "send_loop_inv cap sz [] []" by (simp add: send_loop_inv_def)
  from send_loop_ok[OF assms this]
  obtain b sent' where l: "send_loop cap sz rs [] [] = (Inr b, sent')"
    and c: "concat sent' @ b = rs" and inv: "send_loop_inv cap sz sent' b"
    by auto
  show ?thesis
  proof (cases "b = []")
    case True
    with inv have "sent' = []" by (auto simp: send_loop_inv_def)
    with True l c show ?thesis by (simp add: send_batch_def)
  next
    case False
    with l c inv show ?thesis by (simp add: send_batch_def send_loop_inv_def)
  qed
qed

lemma send_batch_error:
  assumes "r \<in> set rs" and "cap < sz r"
  shows "fst (send_batch cap sz rs) = Inl ValueError"
  using send_loop_error[where batch = "[]" and sent = "[]", OF assms(1), of cap sz] assms(2)
  by (auto simp: send_batch_def)

lemma send_batch_prefix: "\<exists>ys. concat (snd (send_batch cap sz rs)) @ ys = rs"
proof -
  obtain b k where k: "concat (snd (send_loop cap sz rs [] [])) @ b = take k rs"
    using send_loop_prefix[of rs cap sz "[]" "[]"] by auto
  obtain res sent' where l: "send_loop cap sz rs [] [] = (res, sent')"
    by (cases "send_loop cap sz rs [] []")
  show ?thesis
  proof (cases res)
    case (Inl e)
    have "(concat sent' @ b) @ drop k rs = rs"
      using k l by (simp del: append_assoc)
    with l Inl have "concat (snd (send_batch cap sz rs)) @ (b @ drop k rs) = rs"
      by (simp add: send_batch_def)
    then show ?thesis by blast
  next
    case (Inr b')
    have all: "\<forall>r\<in>set rs. sz r \<le> cap"
    proof (rule ccontr)
      assume "\<not> ?thesis"
      then obtain r where "r \<in> set rs" "cap < sz r" by auto
      from send_loop_error[where batch = "[]" and sent = "[]", OF this(1), of cap sz] this(2) l Inr
      show False by simp
    qed
    from send_batch_ok[OF all] have "concat (snd (send_batch cap sz rs)) @ [] = rs" by simp
    then show ?thesis by blast
  qed
qed

lemma length_10_list:
  assumes "length rs = 10"
  obtains a b c d e f g h i j where "rs = [a, b, c, d, e, f, g, h, i, j]"
proof -
  from assms have "length rs = Suc (Suc (Suc (Suc (Suc (Suc (Suc (Suc (Suc (Suc 0)))))))))"
    by simp
  then show ?thesis using that by (auto simp: length_Suc_conv)
qed

lemma send_batch_ten:
  assumes "length rs = 10" and "\<forall>r\<in>set rs. sz r = s" and "0 < s"
    and "3 * s \<le> cap" and "cap < 4 * s"
  shows "send_batch cap sz rs
           = (Inr (), [take 3 rs, take 3 (drop 3 rs), take 3 (drop 6 rs), drop 9 rs])"
proof -
  obtain a b c d e f g h i j where rs: "rs = [a, b, c, d, e, f, g, h, i, j]"
    using assms(1) by (rule length_10_list)
  have sz: "sz a = s" "sz b = s" "sz c = s" "sz d = s" "sz e = s"
           "sz f = s" "sz g = s" "sz h = s" "sz i = s" "sz j = s"
    using assms(2) rs by simp_all
  show ?thesis
    using assms(3-5) by (simp add: rs send_batch_def batch_add_def sz)
qed

text \<open>
  Claim C6, as amended. For every sequence of readings each of which fits into an empty
  batch, \<open>send_batch\<close> returns normally and the batches it sent, concatenated in the
  order of sending, are the readings in input order: nothing is duplicated, dropped or
  reordered. Every batch sent is non-empty and within the capacity, and every batch but
  the last was sent because the next reading did not fit into it. Ten readings of one
  size, three of which fit a batch and four of which do not, are sent as four batches
  of 3, 3, 3 and 1 readings.
\<close>

theorem send_batch_partitions:
  assumes "\<forall>r\<in>set rs. sz r \<le> cap"
  shows "fst (send_batch cap sz rs) = Inr ()
       \<and> concat (snd (send_batch cap sz rs)) = rs
       \<and> (\<forall>b\<in>set (snd (send_batch cap sz rs)). b \<noteq> [] \<and> batch_size sz b \<le> cap)
       \<and> flushed_when_full cap sz (snd (send_batch cap sz rs))
       \<and> (length rs = 10 \<and> (\<forall>r\<in>set rs. sz r = s) \<and> 0 < s \<and> 3 * s \<le> cap \<and> cap < 4 * s
            \<longrightarrow> map length (snd (send_batch cap sz rs)) = [3, 3, 3, 1])"
proof -
  have "length rs = 10 \<and> (\<forall>r\<in>set rs. sz r = s) \<and> 0 < s \<and> 3 * s \<le> cap \<and> cap < 4 * s
            \<longrightarrow> map length (snd (send_batch cap sz rs)) = [3, 3, 3, 1]"
  proof
    assume a: "length rs = 10 \<and> (\<forall>r\<in>set rs. sz r = s) \<and> 0 < s \<and> 3 * s \<le> cap \<and> cap < 4 * s"
    then have "send_batch cap sz rs
           = (Inr (), [take 3 rs, take 3 (drop 3 rs), take 3 (drop 6 rs), drop 9 rs])"
      using send_batch_ten[of rs sz s cap] by simp
    with a show "map length (snd (send_batch cap sz rs)) = [3, 3, 3, 1]" by simp
  qed
  with send_batch_ok[OF assms] show ?thesis by simp
qed

theorem send_batch_partitions_witness:
  "list_all (\<lambda>r. id r \<le> 3) [2, 1, 1, 3, 1 :: nat]
   \<and> send_batch 3 id [2, 1, 1, 3, 1 :: nat] = (Inr (), [[2, 1], [1], [3], [1]])
   \<and> list_all (\<lambda>r. id r \<le> 3) [1, 1, 1, 1, 1, 1, 1, 1, 1, 1 :: nat]
   \<and> length [1, 1, 1, 1, 1, 1, 1, 1, 1, 1 :: nat] = 10
   \<and> map length (snd (send_batch 3 id [1, 1, 1, 1, 1, 1, 1, 1, 1, 1 :: nat])) = [3, 3, 3, 1]"
  using send_batch_partitions[of "[2, 1, 1, 3, 1 :: nat]" id 3 1]
    send_batch_partitions[of "[1, 1, 1, 1, 1, 1, 1, 1, 1, 1 :: nat]" id 3 1]
  by (simp add: send_batch_def batch_add_def)

theorem send_batch_oversized_counterexample:
  "fst (send_batch 3 id [1, 4, 1 :: nat]) = Inl ValueError
   \<and> snd (send_batch 3 id [1, 4, 1 :: nat]) = [[1]]
   \<and> concat (snd (send_batch 3 id [1, 4, 1 :: nat])) \<noteq> [1, 4, 1]"
  by (simp add: send_batch_def batch_add_def)

subsection \<open>Python primitives\<close>

lemma py_int_nonneg: "0 \<le> x \<Longrightarrow> 0 \<le> py_int x"
  by (simp add: py_int_def)

lemma py_int_le: "0 \<le> x \<Longrightarrow> real_of_int (py_int x) \<le> x"
  by (simp add: py_int_def)

lemma round_half_even_ge: "real_of_int m \<le> x \<Longrightarrow> m \<le> round_half_even x"
proof -
  assume "real_of_int m \<le> x"
  then have "m \<le> \<lfloor>x\<rfloor>" by (simp add: le_floor_iff)
  then show ?thesis by (simp add: round_half_even_def Let_def)
qed

lemma round_half_even_le: "x \<le> real_of_int m \<Longrightarrow> round_half_even x \<le> m"
proof -
  assume a: "x \<le> real_of_int m"
  then have f: "\<lfloor>x\<rfloor> \<le> m" by (simp add: floor_le_iff)
  have "\<lfloor>x\<rfloor> + 1 \<le> m" if "1 / 2 \<le> x - of_int \<lfloor>x\<rfloor>"
  proof -
    from that a have "real_of_int \<lfloor>x\<rfloor> < real_of_int m" by linarith
    then show ?thesis by simp
  qed
  with f show ?thesis by (auto simp: round_half_even_def Let_def not_less)
qed

lemma py_round_ge:
  assumes "real_of_int m / 10 ^ n \<le> x"
  shows "real_of_int m / 10 ^ n \<le> py_round x n"
proof -
  have "real_of_int m \<le> x * 10 ^ n" using assms by (simp add: pos_divide_le_eq)
  then have "m \<le> round_half_even (x * 10 ^ n)" by (rule round_half_even_ge)
  then show ?thesis by (simp add: py_round_def divide_right_mono)
qed

lemma py_round_le:
  assumes "x \<le> real_of_int m / 10 ^ n"
  shows "py_round x n \<le> real_of_int m / 10 ^ n"
proof -
  have "x * 10 ^ n \<le> real_of_int m" using assms by (simp add: pos_le_divide_eq)
  then have "round_half_even (x * 10 ^ n) \<le> m" by (rule round_half_even_le)
  then show ?thesis by (simp add: py_round_def divide_right_mono)
qed

lemma py_round_between:
  assumes "real_of_int a \<le> x" and "x \<le> real_of_int b"
  shows "real_of_int a \<le> py_round x n \<and> py_round x n \<le> real_of_int b"
proof -
  have "real_of_int (a * 10 ^ n) / 10 ^ n \<le> py_round x n"
    using assms(1) by (intro py_round_ge) simp
  moreover have "py_round x n \<le> real_of_int (b * 10 ^ n) / 10 ^ n"
    using assms(2) by (intro py_round_le) simp
  ultimately show ?thesis by simp
qed

lemma uniform_bounds:
  assumes "unit_draw u" and "a \<le> b"
  shows "a \<le> uniform a b u \<and> uniform a b u \<le> b"
proof -
  from assms have "0 \<le> (b - a) * u" by (simp add: unit_draw_def)
  moreover from assms have "(b - a) * u \<le> (b - a) * 1"
    by (intro mult_left_mono) (simp_all add: unit_draw_def)
  ultimately show ?thesis by (simp add: uniform_def)
qed

subsection \<open>Traffic simulator\<close>

lemma get_weather_impact_cases:
  assumes "choice_draw (map fst weather_conditions) k"
  shows "get_weather_impact k \<in> {Inr 1.0, Inr 0.7, Inr 0.5, Inr 0.4, Inr 0.6}"
proof -
  from assms have "k < 5" by (simp add: choice_draw_def weather_conditions_def)
  then consider "k = 0" | "k = 1" | "k = 2" | "k = 3" | "k = 4" by linarith
  then show ?thesis
    by cases (simp_all add: get_weather_impact_def weather_conditions_def random_choice_def)
qed

lemma get_weather_impact_valid:
  assumes "choice_draw (map fst weather_conditions) k"
  shows "\<exists>w. get_weather_impact k = Inr w \<and> 0 < w"
  using get_weather_impact_cases[OF assms] by auto

lemma district_multiplier_cases:
  assumes "dn \<in> set (map fst district_multipliers)"
  shows "map_of district_multipliers dn \<in> {Some 1.5, Some 0.7, Some 1.2, Some 0.5}"
  using assms by (auto simp: district_multipliers_def)

lemma district_multiplier_valid:
  assumes "dn \<in> set (map fst district_multipliers)"
  shows "\<exists>m. map_of district_multipliers dn = Some m \<and> 0 < m"
  using district_multiplier_cases[OF assms] by auto

lemma matching_band_cases:
  assumes "h < 24"
  shows "matching_band time_of_day_patterns h \<in> {Some 0.2, Some 1.5, Some 0.8, Some 1.6, Some 0.6}"
  using assms by (simp add: time_of_day_patterns_def)

lemma matching_band_hours:
  assumes "h < 24"
  shows "\<exists>m. matching_band time_of_day_patterns h = Some m \<and> m \<in> {0.2, 1.5, 0.8, 1.6, 0.6}"
  using matching_band_cases[OF assms] by auto

text \<open>What a returned reading holds, in terms of the vehicle count.\<close>

lemma generate_reading_Inr:
  assumes "generate_reading x ts d = Inr r"
  shows "0 \<le> vehicle_count r
       \<and> (lanes_north_south x + lanes_east_west x) * 10 * 2 \<noteq> 0
       \<and> occupancy_rate r =
           py_round (min 1 (real_of_int (vehicle_count r)
                       / real_of_int ((lanes_north_south x + lanes_east_west x) * 10 * 2))) 3
       \<and> average_speed r =
           py_round (max 5 (35 * (1 - min 1 (real_of_int (vehicle_count r)
                       / real_of_int ((lanes_north_south x + lanes_east_west x) * 10 * 2)) * 0.7))) 2
       \<and> vehicle_types r =
           [(''car'', vehicle_count r
                - (py_int (real_of_int (vehicle_count r) * uniform 0.05 0.12 (truck_draw d))
                   + py_int (real_of_int (vehicle_count r) * uniform 0.02 0.05 (motorcycle_draw d))
                   + py_int (real_of_int (vehicle_count r) * uniform 0.01 0.03 (bus_draw d)))),
            (''truck'', py_int (real_of_int (vehicle_count r) * uniform 0.05 0.12 (truck_draw d))),
            (''motorcycle'',
               py_int (real_of_int (vehicle_count r) * uniform 0.02 0.05 (motorcycle_draw d))),
            (''bus'', py_int (real_of_int (vehicle_count r) * uniform 0.01 0.03 (bus_draw d)))]"
  using assms
  by (auto simp: generate_reading_def Let_def split: option.splits sum.splits if_splits)

lemma generate_reading_returns:
  assumes "wellformed_intersection x" and "valid_reading_draws d"
  shows "\<exists>r. generate_reading x ts d = Inr r"
proof -
  obtain m where m: "map_of district_multipliers (district x) = Some m"
    using assms(1) district_multiplier_valid unfolding wellformed_intersection_def by blast
  obtain w where w: "get_weather_impact (weather_draw d) = Inr w"
    using assms(2) get_weather_impact_valid unfolding valid_reading_draws_def by blast
  have "(lanes_north_south x + lanes_east_west x) * 10 * 2 \<noteq> 0"
    using assms(1) by (simp add: wellformed_intersection_def)
  then show ?thesis by (simp add: generate_reading_def Let_def m w)
qed

text \<open>
  Claim C2. Whenever \<open>generate_reading\<close> returns a reading, its \<open>vehicle_types\<close> holds
  the four keys car, truck, motorcycle and bus, and the four counts add up to
  \<open>vehicle_count\<close> exactly, whatever the draws were. It returns a reading for every
  well-formed intersection and all draws the library can produce.
\<close>

theorem vehicle_types_sum_to_vehicle_count:
  "(\<forall>r. generate_reading x ts d = Inr r \<longrightarrow>
      (\<exists>car truck motorcycle bus.
         vehicle_types r =
           [(''car'', car), (''truck'', truck), (''motorcycle'', motorcycle), (''bus'', bus)]
         \<and> car + truck + motorcycle + bus = vehicle_count r)
      \<and> sum_list (map snd (vehicle_types r)) = vehicle_count r)
   \<and> (wellformed_intersection x \<and> valid_reading_draws d \<longrightarrow>
        (\<exists>r. generate_reading x ts d = Inr r))"
proof (intro conjI allI impI)
  fix r
  assume a: "generate_reading x ts d = Inr r"
  note s = generate_reading_Inr[OF a]
  from s show "\<exists>car truck motorcycle bus.
         vehicle_types r =
           [(''car'', car), (''truck'', truck), (''motorcycle'', motorcycle), (''bus'', bus)]
         \<and> car + truck + motorcycle + bus = vehicle_count r"
    by simp
  from s show "sum_list (map snd (vehicle_types r)) = vehicle_count r" by simp
next
  assume "wellformed_intersection x \<and> valid_reading_draws d"
  then show "\<exists>r. generate_reading x ts d = Inr r"
    by (simp add: generate_reading_returns)
qed

text \<open>
  Claim C4. For an intersection with at least two lanes on each axis, every reading
  \<open>generate_reading\<close> returns has \<open>occupancy_rate\<close> between 0 and 1 and \<open>average_speed\<close>
  between 5 and 35, whatever the draws were; and a reading is returned whenever the
  district is one of the four and the draws are ones the library can produce.
\<close>

theorem occupancy_and_speed_bounds:
  assumes "2 \<le> lanes_north_south x" and "2 \<le> lanes_east_west x"
  shows "(\<forall>r. generate_reading x ts d = Inr r \<longrightarrow>
            0 \<le> occupancy_rate r \<and> occupancy_rate r \<le> 1
          \<and> 5 \<le> average_speed r \<and> average_speed r \<le> 35)
       \<and> (district x \<in> set (map fst district_multipliers) \<and> valid_reading_draws d \<longrightarrow>
            (\<exists>r. generate_reading x ts d = Inr r))"
proof (intro conjI allI impI)
  fix r
  assume a: "generate_reading x ts d = Inr r"
  define cap2 where "cap2 = (lanes_north_south x + lanes_east_west x) * 10 * 2"
  define occ where "occ = min 1 (real_of_int (vehicle_count r) / real_of_int cap2)"
  note s = generate_reading_Inr[OF a, folded cap2_def, folded occ_def]
  have "0 < cap2" using assms by (simp add: cap2_def)
  moreover have "0 \<le> vehicle_count r" using s by simp
  ultimately have "0 \<le> real_of_int (vehicle_count r) / real_of_int cap2" by simp
  then have occ: "0 \<le> occ" "occ \<le> 1" by (simp_all add: occ_def)
  have o: "real_of_int 0 \<le> occ" "occ \<le> real_of_int 1" using occ by simp_all
  from py_round_between[OF o, of 3] s
  show "0 \<le> occupancy_rate r" "occupancy_rate r \<le> 1" by simp_all
  have "35 * (1 - occ * 0.7) \<le> 35" using occ by simp
  then have v: "real_of_int 5 \<le> max 5 (35 * (1 - occ * 0.7))"
    "max 5 (35 * (1 - occ * 0.7)) \<le> real_of_int 35" by simp_all
  from py_round_between[OF v, of 2] s
  show "5 \<le> average_speed r" "average_speed r \<le> 35" by simp_all
next
  assume "district x \<in> set (map fst district_multipliers) \<and> valid_reading_draws d"
  with assms show "\<exists>r. generate_reading x ts d = Inr r"
    by (simp add: generate_reading_returns wellformed_intersection_def)
qed

lemma sample_reading_draws_valid: "valid_reading_draws sample_reading_draws"
  by (simp add: valid_reading_draws_def sample_reading_draws_def unit_draw_def choice_draw_def
      randint_draw_def weather_conditions_def)

lemma sample_intersection_wellformed: "wellformed_intersection sample_intersection"
  by (simp add: wellformed_intersection_def sample_intersection_def district_multipliers_def)

lemma sample_reading:
  "generate_reading sample_intersection sample_datetime sample_reading_draws =
     Inr \<lparr>sensor_id = ''INT-0102-SENSOR-01'',
          reading_intersection_id = ''INT-0102'',
          timestamp = ''2024-01-01T12:00:00'',
          vehicle_count = 62,
          average_speed = 19.81,
          occupancy_rate = 0.62,
          vehicle_types = [(''car'', 54), (''truck'', 5), (''motorcycle'', 2), (''bus'', 1)],
          wait_time_seconds = 46.5,
          queue_length = 15,
          signal_state = ''red'',
          reading_latitude = 40.6728,
          reading_longitude = - 74.036,
          reading_district = ''downtown''\<rparr>"
  by (simp add: generate_reading_def sample_intersection_def sample_datetime_def
      sample_reading_draws_def get_traffic_multiplier_def time_of_day_patterns_def
      district_multipliers_def get_weather_impact_def weather_conditions_def random_choice_def
      uniform_def py_int_def py_round_def round_half_even_def Let_def)

theorem vehicle_types_sum_to_vehicle_count_witness:
  "wellformed_intersection sample_intersection \<and> valid_reading_draws sample_reading_draws
   \<and> (\<exists>r. generate_reading sample_intersection sample_datetime sample_reading_draws = Inr r
          \<and> vehicle_types r = [(''car'', 54), (''truck'', 5), (''motorcycle'', 2), (''bus'', 1)]
          \<and> vehicle_count r = 54 + 5 + 2 + 1)"
  using vehicle_types_sum_to_vehicle_count[of sample_intersection sample_datetime sample_reading_draws]
    sample_reading sample_reading_draws_valid sample_intersection_wellformed
  by simp

theorem occupancy_and_speed_bounds_witness:
  "2 \<le> lanes_north_south sample_intersection \<and> 2 \<le> lanes_east_west sample_intersection
   \<and> district sample_intersection \<in> set (map fst district_multipliers)
   \<and> valid_reading_draws sample_reading_draws
   \<and> (\<exists>r. generate_reading sample_intersection sample_datetime sample_reading_draws = Inr r
          \<and> occupancy_rate r = 0.62 \<and> average_speed r = 19.81
          \<and> 0 \<le> occupancy_rate r \<and> occupancy_rate r \<le> 1
          \<and> 5 \<le> average_speed r \<and> average_speed r \<le> 35)"
  using occupancy_and_speed_bounds[of sample_intersection sample_datetime sample_reading_draws]
    sample_reading sample_reading_draws_valid sample_intersection_wellformed
  by (simp add: wellformed_intersection_def)

text \<open>
  Claim C9. In every reading \<open>generate_reading\<close> returns for draws the library can
  produce, the four vehicle-type counts are non-negative. The truck, motorcycle and bus
  counts are truncations of at most 0.12, 0.05 and 0.03 of the total, so together they
  are at most a fifth of it and the car count, the total minus their sum, is at least
  four fifths of the total.
\<close>

theorem vehicle_type_counts_nonnegative:
  assumes "generate_reading x ts d = Inr r" and "valid_reading_draws d"
  shows "(\<forall>(k, v)\<in>set (vehicle_types r). 0 \<le> v)
       \<and> (\<exists>car truck motorcycle bus.
            vehicle_types r =
              [(''car'', car), (''truck'', truck), (''motorcycle'', motorcycle), (''bus'', bus)]
            \<and> 0 \<le> truck \<and> real_of_int truck \<le> 0.12 * real_of_int (vehicle_count r)
            \<and> 0 \<le> motorcycle \<and> real_of_int motorcycle \<le> 0.05 * real_of_int (vehicle_count r)
            \<and> 0 \<le> bus \<and> real_of_int bus \<le> 0.03 * real_of_int (vehicle_count r)
            \<and> real_of_int (truck + motorcycle + bus) \<le> 0.20 * real_of_int (vehicle_count r)
            \<and> 0 \<le> car \<and> 0.80 * real_of_int (vehicle_count r) \<le> real_of_int car)"
proof -
  define n where "n = vehicle_count r"
  define truck where "truck = py_int (real_of_int n * uniform 0.05 0.12 (truck_draw d))"
  define motorcycle where "motorcycle = py_int (real_of_int n * uniform 0.02 0.05 (motorcycle_draw d))"
  define bus where "bus = py_int (real_of_int n * uniform 0.01 0.03 (bus_draw d))"
  note s = generate_reading_Inr[OF assms(1), folded n_def, folded truck_def motorcycle_def bus_def]
  have n: "0 \<le> real_of_int n" using s by simp
  have frac: "0 \<le> py_int (real_of_int n * uniform a b u)
            \<and> real_of_int (py_int (real_of_int n * uniform a b u)) \<le> b * real_of_int n"
    if "unit_draw u" and "0 \<le> a" and "a \<le> b" for u a b
  proof -
    from uniform_bounds[OF that(1,3)] that(2)
    have u: "0 \<le> uniform a b u" "uniform a b u \<le> b" by simp_all
    have p: "0 \<le> real_of_int n * uniform a b u" using n u(1) by simp
    have "real_of_int n * uniform a b u \<le> real_of_int n * b"
      using n u(2) by (rule mult_left_mono[rotated])
    with py_int_le[OF p] py_int_nonneg[OF p] show ?thesis by (simp add: mult.commute)
  qed
  have d: "unit_draw (truck_draw d)" "unit_draw (motorcycle_draw d)" "unit_draw (bus_draw d)"
    using assms(2) by (simp_all add: valid_reading_draws_def)
  have t: "0 \<le> truck" "real_of_int truck \<le> 0.12 * real_of_int n"
    using frac[of "truck_draw d" "0.05" "0.12"] d(1) by (simp_all add: truck_def)
  have m: "0 \<le> motorcycle" "real_of_int motorcycle \<le> 0.05 * real_of_int n"
    using frac[of "motorcycle_draw d" "0.02" "0.05"] d(2) by (simp_all add: motorcycle_def)
  have b: "0 \<le> bus" "real_of_int bus \<le> 0.03 * real_of_int n"
    using frac[of "bus_draw d" "0.01" "0.03"] d(3) by (simp_all add: bus_def)
  have sum: "real_of_int (truck + motorcycle + bus) \<le> 0.20 * real_of_int n"
    using t(2) m(2) b(2) by simp
  have car_r: "0.80 * real_of_int n \<le> real_of_int (n - (truck + motorcycle + bus))"
    using sum by simp
  have "0 \<le> 0.80 * real_of_int n" using n by simp
  then have "0 \<le> real_of_int (n - (truck + motorcycle + bus))"
    using car_r by (rule order_trans)
  then have car: "0 \<le> n - (truck + motorcycle + bus)" by linarith
  have vt: "vehicle_types r =
      [(''car'', n - (truck + motorcycle + bus)), (''truck'', truck),
       (''motorcycle'', motorcycle), (''bus'', bus)]"
    using s by simp
  have "\<forall>(k, v)\<in>set (vehicle_types r). 0 \<le> v"
    using vt car t(1) m(1) b(1) by simp
  moreover have "\<exists>car truck motorcycle bus.
            vehicle_types r =
              [(''car'', car), (''truck'', truck), (''motorcycle'', motorcycle), (''bus'', bus)]
            \<and> 0 \<le> truck \<and> real_of_int truck \<le> 0.12 * real_of_int n
            \<and> 0 \<le> motorcycle \<and> real_of_int motorcycle \<le> 0.05 * real_of_int n
            \<and> 0 \<le> bus \<and> real_of_int bus \<le> 0.03 * real_of_int n
            \<and> real_of_int (truck + motorcycle + bus) \<le> 0.20 * real_of_int n
            \<and> 0 \<le> car \<and> 0.80 * real_of_int n \<le> real_of_int car"
    using vt car car_r t m b sum by blast
  ultimately show ?thesis unfolding n_def by blast
qed

theorem vehicle_type_counts_nonnegative_witness:
  "valid_reading_draws sample_reading_draws
   \<and> (\<exists>r. generate_reading sample_intersection sample_datetime sample_reading_draws = Inr r
          \<and> vehicle_types r = [(''car'', 54), (''truck'', 5), (''motorcycle'', 2), (''bus'', 1)]
          \<and> list_all (\<lambda>(k, v). 0 \<le> v) (vehicle_types r))"
  using vehicle_type_counts_nonnegative[OF sample_reading sample_reading_draws_valid]
    sample_reading sample_reading_draws_valid
  by simp

lemma get_traffic_multiplier_band:
  assumes "hour ts < 24" and "unit_draw u"
  shows "\<exists>band. matching_band time_of_day_patterns (hour ts) = Some band
           \<and> get_traffic_multiplier ts u = band * uniform 0.8 1.2 u
           \<and> 0 < get_traffic_multiplier ts u \<and> get_traffic_multiplier ts u \<noteq> 1"
proof -
  obtain band where b: "matching_band time_of_day_patterns (hour ts) = Some band"
    and c: "band \<in> {0.2, 1.5, 0.8, 1.6, 0.6}"
    using matching_band_hours[OF assms(1)] by blast
  have j: "0.8 \<le> uniform 0.8 1.2 u" "uniform 0.8 1.2 u \<le> 1.2"
    using uniform_bounds[OF assms(2), of "0.8" "1.2"] by simp_all
  have g: "get_traffic_multiplier ts u = band * uniform 0.8 1.2 u"
    by (simp add: get_traffic_multiplier_def b)
  define jitter where "jitter = uniform 0.8 1.2 u"
  have j': "4 / 5 \<le> jitter" "jitter \<le> 6 / 5" using j by (simp_all add: jitter_def)
  from c consider "band = 1 / 5" | "band = 3 / 2" | "band = 4 / 5" | "band = 8 / 5" | "band = 3 / 5"
    by fastforce
  then have "0 < band * jitter \<and> band * jitter \<noteq> 1"
  proof cases
    case 1
    have "1 / 5 * jitter < 1" "0 < 1 / 5 * jitter" using j' by linarith+
    then have "0 < 1 / 5 * jitter \<and> 1 / 5 * jitter \<noteq> 1" by linarith
    then show ?thesis unfolding 1 .
  next
    case 2
    have "1 < 3 / 2 * jitter" using j' by linarith
    then have "0 < 3 / 2 * jitter \<and> 3 / 2 * jitter \<noteq> 1" by linarith
    then show ?thesis unfolding 2 .
  next
    case 3
    have "4 / 5 * jitter < 1" "0 < 4 / 5 * jitter" using j' by linarith+
    then have "0 < 4 / 5 * jitter \<and> 4 / 5 * jitter \<noteq> 1" by linarith
    then show ?thesis unfolding 3 .
  next
    case 4
    have "1 < 8 / 5 * jitter" using j' by linarith
    then have "0 < 8 / 5 * jitter \<and> 8 / 5 * jitter \<noteq> 1" by linarith
    then show ?thesis unfolding 4 .
  next
    case 5
    have "3 / 5 * jitter < 1" "0 < 3 / 5 * jitter" using j' by linarith+
    then have "0 < 3 / 5 * jitter \<and> 3 / 5 * jitter \<noteq> 1" by linarith
    then show ?thesis unfolding 5 .
  qed
  then have "0 < band * uniform 0.8 1.2 u \<and> band * uniform 0.8 1.2 u \<noteq> 1"
    by (simp add: jitter_def)
  with b g show ?thesis by simp
qed

text \<open>
  Claim C8. For an hour of the day from 0 to 23, one of the four districts and draws the
  library can produce, the loop of \<open>get_traffic_multiplier\<close> finds a band, so the value
  returned is that band's multiplier times the jitter and the default \<open>1.0\<close> after the
  loop is not what is returned; and the product of the time, district and weather
  factors that scale the vehicle count is strictly positive.
\<close>

theorem demand_multiplier_positive:
  assumes "hour ts < 24" and "dn \<in> set (map fst district_multipliers)"
    and "unit_draw u" and "choice_draw (map fst weather_conditions) k"
  shows "\<exists>band time_factor district_factor weather_factor.
           matching_band time_of_day_patterns (hour ts) = Some band
         \<and> get_traffic_multiplier ts u = time_factor
         \<and> time_factor = band * uniform 0.8 1.2 u
         \<and> time_factor \<noteq> 1
         \<and> map_of district_multipliers dn = Some district_factor
         \<and> get_weather_impact k = Inr weather_factor
         \<and> 0 < time_factor * district_factor * weather_factor"
proof -
  obtain band where b: "matching_band time_of_day_patterns (hour ts) = Some band"
    "get_traffic_multiplier ts u = band * uniform 0.8 1.2 u"
    "0 < get_traffic_multiplier ts u" "get_traffic_multiplier ts u \<noteq> 1"
    using get_traffic_multiplier_band[OF assms(1,3)] by blast
  obtain m where m: "map_of district_multipliers dn = Some m" "0 < m"
    using district_multiplier_valid[OF assms(2)] by blast
  obtain w where w: "get_weather_impact k = Inr w" "0 < w"
    using get_weather_impact_valid[OF assms(4)] by blast
  have "0 < get_traffic_multiplier ts u * m * w" using b(3) m(2) w(2) by simp
  with b m w show ?thesis by metis
qed

theorem demand_multiplier_positive_witness:
  "hour sample_datetime < 24
   \<and> ''downtown'' \<in> set (map fst district_multipliers)
   \<and> unit_draw (1 / 2) \<and> choice_draw (map fst weather_conditions) 1
   \<and> matching_band time_of_day_patterns (hour sample_datetime) = Some 0.8
   \<and> get_traffic_multiplier sample_datetime (1 / 2) = 0.8
   \<and> map_of district_multipliers ''downtown'' = Some 1.5
   \<and> get_weather_impact 1 = Inr 0.7
   \<and> (0::real) < 0.8 * 1.5 * 0.7"
  using demand_multiplier_positive[of sample_datetime "''downtown''" "1 / 2" 1]
  by (simp add: sample_datetime_def district_multipliers_def unit_draw_def choice_draw_def
      weather_conditions_def time_of_day_patterns_def get_traffic_multiplier_def uniform_def
      get_weather_impact_def random_choice_def)

subsection \<open>String formatting\<close>

lemma digit_char_inj:
  assumes "d < 10" and "e < 10" and "digit_char d = digit_char e"
  shows "d = e"
proof -
  have "distinct ''0123456789''" by simp
  moreover have "d < length ''0123456789''" "e < length ''0123456789''" using assms by simp_all
  ultimately show ?thesis using assms(3) unfolding digit_char_def
    by (simp only: nth_eq_iff_index_eq)
qed

lemma format_02d_two_digits:
  assumes "n < 100"
  shows "format_02d n = [digit_char (n div 10), digit_char (n mod 10)]"
proof (cases "n < 10")
  case True
  then show ?thesis by (simp add: format_02d_def py_str.simps[of n] digit_char_def)
next
  case False
  with assms have "n div 10 < 10" by simp
  with False show ?thesis
    by (simp add: format_02d_def py_str.simps[of n] py_str.simps[of "n div 10"])
qed

lemma format_02d_100: "format_02d 100 = ''100''"
  by (simp add: format_02d_def py_str.simps digit_char_def)

lemma format_02d_101: "format_02d 101 = ''101''"
  by (simp add: format_02d_def py_str.simps digit_char_def)

lemma format_02d_inj_small:
  assumes "m < 100" and "n < 100" and "format_02d m = format_02d n"
  shows "m = n"
proof -
  from assms have hi: "digit_char (m div 10) = digit_char (n div 10)"
    and lo: "digit_char (m mod 10) = digit_char (n mod 10)"
    by (simp_all add: format_02d_two_digits)
  have "m div 10 < 10" "n div 10 < 10" using assms(1,2) by simp_all
  then have d: "m div 10 = n div 10" using hi by (rule digit_char_inj)
  have "m mod 10 < 10" "n mod 10 < 10" by simp_all
  then have r: "m mod 10 = n mod 10" using lo by (rule digit_char_inj)
  from d r show ?thesis by (metis div_mult_mod_eq)
qed

lemma format_02d_length:
  assumes "n \<le> 100"
  shows "length (format_02d n) = (if n = 100 then 3 else 2)"
proof (cases "n = 100")
  case True
  then show ?thesis by (simp add: format_02d_100)
next
  case False
  with assms have "n < 100" by simp
  with False show ?thesis by (simp add: format_02d_two_digits)
qed

lemma format_02d_inj:
  assumes "m \<le> 100" and "n \<le> 100" and "format_02d m = format_02d n"
  shows "m = n"
proof (cases "m = 100 \<or> n = 100")
  case True
  have "length (format_02d m) = length (format_02d n)" using assms(3) by simp
  with True assms(1,2) show ?thesis by (auto simp: format_02d_length split: if_splits)
next
  case False
  with assms show ?thesis by (intro format_02d_inj_small) simp_all
qed

text \<open>Up to a grid of 101 rows and columns, the two numbers of an identifier can be read back.\<close>

lemma intersection_id_inj:
  assumes "i \<le> 100" and "j \<le> 100" and "i' \<le> 100" and "j' \<le> 100"
    and "format_02d i @ format_02d j = format_02d i' @ format_02d j'"
  shows "i = i' \<and> j = j'"
proof -
  have differ: False
    if "a < 100" and "b \<le> 100" and "c \<le> 100"
      and eq: "format_02d a @ format_02d b = format_02d 100 @ format_02d c" for a b c
  proof -
    have "length (format_02d a @ format_02d b) = length (format_02d 100 @ format_02d c)"
      using eq by simp
    then have "b = 100"
      using that(1-3) by (auto simp: format_02d_length split: if_splits)
    then have "[digit_char (a div 10), digit_char (a mod 10)] @ ''100'' = ''100'' @ format_02d c"
      using eq that(1) by (simp add: format_02d_two_digits format_02d_100)
    then show False by simp
  qed
  show ?thesis
  proof (cases "i = 100")
    case True
    show ?thesis
    proof (cases "i' = 100")
      case True
      with \<open>i = 100\<close> assms show ?thesis by (simp add: format_02d_inj)
    next
      case False
      with assms(3) have "i' < 100" by simp
      from differ[OF this assms(4) assms(2)] assms(5) True show ?thesis by simp
    qed
  next
    case False
    with assms(1) have i: "i < 100" by simp
    show ?thesis
    proof (cases "i' = 100")
      case True
      from differ[OF i assms(2) assms(4)] assms(5) True show ?thesis by simp
    next
      case False
      with assms(3) have i': "i' < 100" by simp
      have "length (format_02d i) = length (format_02d i')"
        using i i' by (simp add: format_02d_two_digits)
      with assms(5) have "format_02d i = format_02d i'" "format_02d j = format_02d j'"
        by simp_all
      then show ?thesis
        using i i' assms(2,4) by (simp add: format_02d_inj_small format_02d_inj)
    qed
  qed
qed

lemma intersection_id_collision:
  "format_02d 10 @ format_02d 100 = format_02d 101 @ format_02d 0"
  by (simp add: format_02d_100 format_02d_101 format_02d_two_digits digit_char_def)

subsection \<open>City grid\<close>

lemma sqrt_less_iff_square:
  assumes "0 \<le> c"
  shows "sqrt x < c \<longleftrightarrow> x < c ^ 2"
proof -
  have "sqrt (c ^ 2) = c" using assms by simp
  then have "sqrt x < c \<longleftrightarrow> sqrt x < sqrt (c ^ 2)" by simp
  then show ?thesis by (simp only: real_sqrt_less_iff)
qed

text \<open>The bands of \<open>cell_district\<close> without the square root.\<close>

lemma cell_district_squares:
  "cell_district i j =
     (if i ^ 2 + j ^ 2 < 9 then ''downtown''
      else if i ^ 2 + j ^ 2 < 25 then ''residential''
      else if i ^ 2 + j ^ 2 < 49 then ''industrial''
      else ''suburban'')"
proof -
  have "sqrt (real (i ^ 2 + j ^ 2)) < 3 \<longleftrightarrow> i ^ 2 + j ^ 2 < 9"
    "sqrt (real (i ^ 2 + j ^ 2)) < 5 \<longleftrightarrow> i ^ 2 + j ^ 2 < 25"
    "sqrt (real (i ^ 2 + j ^ 2)) < 7 \<longleftrightarrow> i ^ 2 + j ^ 2 < 49"
    by (simp_all add: sqrt_less_iff_square del: of_nat_add of_nat_power)
  then show ?thesis by (simp add: cell_district_def cell_distance_def Let_def)
qed

lemma cell_district_known: "cell_district i j \<in> set (map fst districts)"
  by (simp add: cell_district_squares districts_def)

lemma make_intersection_Inr:
  assumes "65 + i < 0x110000"
  shows "\<exists>x. make_intersection center N draws i j = Inr x
           \<and> intersection_id x = ''INT-'' @ format_02d i @ format_02d j
           \<and> district x = cell_district i j
           \<and> lanes_north_south x = random_choice [2, 3, 4] (lanes_ns_choice (draws i j))
           \<and> lanes_east_west x = random_choice [2, 3, 4] (lanes_ew_choice (draws i j))"
proof -
  obtain cfg where "map_of districts (cell_district i j) = Some cfg"
    using cell_district_known[of i j]
    by (metis (no_types, lifting) domD dom_map_of_conv_image_fst set_map)
  then show ?thesis using assms
    by (simp add: make_intersection_def py_chr_def Let_def split: prod.split)
qed

lemma inner_loop_Inr:
  assumes "\<forall>j\<in>set js. body j = Inr (g j)"
  shows "inner_loop body js acc = Inr (acc @ map g js)"
  using assms by (induction js arbitrary: acc) simp_all

lemma outer_loop_Inr:
  assumes "\<forall>i\<in>set is. \<forall>j\<in>set js. body i j = Inr (g i j)"
  shows "outer_loop body is js acc = Inr (acc @ concat (map (\<lambda>i. map (g i) js) is))"
  using assms
proof (induction "is" arbitrary: acc)
  case Nil
  then show ?case by simp
next
  case (Cons i "is")
  then have "inner_loop (body i) js acc = Inr (acc @ map (g i) js)"
    by (intro inner_loop_Inr) simp
  with Cons show ?case by simp
qed

lemma concat_map_product:
  "concat (map (\<lambda>i. map (g i) js) is) = map (\<lambda>(i, j). g i j) (List.product is js)"
  by (induction "is") simp_all

lemma generate_intersections_Inr:
  assumes "N \<le> 1114047"
  shows "generate_intersections center N draws =
           Inr (map (\<lambda>(i, j). projr (make_intersection center N draws i j))
                  (List.product [0..<nat N] [0..<nat N]))"
proof -
  have "\<forall>i\<in>set [0..<nat N]. \<forall>j\<in>set [0..<nat N].
          make_intersection center N draws i j = Inr (projr (make_intersection center N draws i j))"
  proof (intro ballI)
    fix i j
    assume "i \<in> set [0..<nat N]"
    then have "65 + i < 0x110000" using assms by simp
    from make_intersection_Inr[OF this, of center N draws j]
    show "make_intersection center N draws i j = Inr (projr (make_intersection center N draws i j))"
      by auto
  qed
  then show ?thesis
    unfolding generate_intersections_def
    by (simp add: outer_loop_Inr[where g = "\<lambda>i j. projr (make_intersection center N draws i j)"]
        concat_map_product)
qed

lemma generate_intersections_length:
  assumes "generate_intersections center N draws = Inr xs" and "N \<le> 1114047"
  shows "length xs = nat N * nat N"
  using assms by (auto simp: generate_intersections_Inr)

lemma generate_intersections_nth:
  assumes "generate_intersections center N draws = Inr xs" and "N \<le> 1114047"
    and "i < nat N" and "j < nat N"
  shows "make_intersection center N draws i j = Inr (xs ! (i * nat N + j))"
proof -
  let ?n = "nat N"
  have lt: "i * ?n + j < ?n * ?n"
  proof -
    have "i * ?n + j < i * ?n + ?n" using assms(4) by simp
    also have "\<dots> = (i + 1) * ?n" by simp
    also have "\<dots> \<le> ?n * ?n" using assms(3) by (intro mult_le_mono1) simp
    finally show ?thesis .
  qed
  have "65 + i < 0x110000" using assms(2,3) by simp
  then obtain x where x: "make_intersection center N draws i j = Inr x"
    using make_intersection_Inr by blast
  have "List.product [0..<?n] [0..<?n] ! (i * ?n + j) = (i, j)"
    using lt assms(3,4) by (simp add: product_nth)
  then have "xs ! (i * ?n + j) = projr (make_intersection center N draws i j)"
    using assms(1,2) lt by (auto simp: generate_intersections_Inr)
  with x show ?thesis by simp
qed

lemma generate_intersections_cell:
  assumes "generate_intersections center N draws = Inr xs" and "N \<le> 1114047"
    and "i < nat N" and "j < nat N"
  shows "intersection_id (xs ! (i * nat N + j)) = ''INT-'' @ format_02d i @ format_02d j"
    and "district (xs ! (i * nat N + j)) = cell_district i j"
proof -
  have "65 + i < 0x110000" using assms(2,3) by simp
  from make_intersection_Inr[OF this, of center N draws j]
    generate_intersections_nth[OF assms]
  show "intersection_id (xs ! (i * nat N + j)) = ''INT-'' @ format_02d i @ format_02d j"
    and "district (xs ! (i * nat N + j)) = cell_district i j"
    by auto
qed

lemma generate_intersections_ids:
  assumes "generate_intersections center N draws = Inr xs" and "N \<le> 1114047"
  shows "map intersection_id xs =
           map (\<lambda>(i, j). ''INT-'' @ format_02d i @ format_02d j)
             (List.product [0..<nat N] [0..<nat N])"
proof -
  have "intersection_id (projr (make_intersection center N draws i j))
          = ''INT-'' @ format_02d i @ format_02d j"
    if "i < nat N" for i j
  proof -
    have "65 + i < 0x110000" using assms(2) that by simp
    from make_intersection_Inr[OF this, of center N draws j] show ?thesis by auto
  qed
  then show ?thesis
    using assms by (auto simp: generate_intersections_Inr)
qed

text \<open>
  Claim C3, as amended. For every centre and every grid size \<open>N\<close> from 1 to 101 the grid
  builder returns exactly \<open>N * N\<close> intersections, the one of cell \<open>(i, j)\<close> at position
  \<open>i * N + j\<close> with the identifier \<open>INT-\<close> followed by \<open>i\<close> and \<open>j\<close> in at least two
  digits each, and these identifiers are pairwise distinct.
\<close>

theorem grid_ids_distinct:
  assumes "0 < N" and "N \<le> 101"
  shows "\<exists>xs. generate_intersections center N draws = Inr xs
           \<and> int (length xs) = N * N
           \<and> (\<forall>i<nat N. \<forall>j<nat N.
                 intersection_id (xs ! (i * nat N + j)) = ''INT-'' @ format_02d i @ format_02d j)
           \<and> distinct (map intersection_id xs)"
proof -
  have le: "N \<le> 1114047" using assms(2) by simp
  obtain xs where xs: "generate_intersections center N draws = Inr xs"
    by (simp add: generate_intersections_Inr[OF le])
  have len: "int (length xs) = N * N"
    using generate_intersections_length[OF xs le] assms(1) by (simp add: nat_mult_distrib)
  have ids: "\<forall>i<nat N. \<forall>j<nat N.
      intersection_id (xs ! (i * nat N + j)) = ''INT-'' @ format_02d i @ format_02d j"
    using generate_intersections_cell(1)[OF xs le] by blast
  have "inj_on (\<lambda>(i, j). ''INT-'' @ format_02d i @ format_02d j)
          (set (List.product [0..<nat N] [0..<nat N]))"
  proof (rule inj_onI)
    fix p q
    assume p: "p \<in> set (List.product [0..<nat N] [0..<nat N])"
      and q: "q \<in> set (List.product [0..<nat N] [0..<nat N])"
      and eq: "(case p of (i, j) \<Rightarrow> ''INT-'' @ format_02d i @ format_02d j)
             = (case q of (i, j) \<Rightarrow> ''INT-'' @ format_02d i @ format_02d j)"
    obtain i j where pij: "p = (i, j)" by (cases p)
    obtain i' j' where qij: "q = (i', j')" by (cases q)
    have b: "i \<le> 100" "j \<le> 100" "i' \<le> 100" "j' \<le> 100"
      using p q pij qij assms(2) by auto
    have "format_02d i @ format_02d j = format_02d i' @ format_02d j'"
      using eq pij qij by simp
    from intersection_id_inj[OF b this] show "p = q" by (simp add: pij qij)
  qed
  moreover have "distinct (List.product [0..<nat N] [0..<nat N])"
    by (simp add: distinct_product)
  ultimately have "distinct (map intersection_id xs)"
    unfolding generate_intersections_ids[OF xs le] by (simp add: distinct_map)
  with xs len ids show ?thesis by blast
qed

theorem grid_ids_distinct_witness:
  "(0::int) < 2 \<and> (2::int) \<le> 101
   \<and> (\<exists>xs. generate_intersections sample_center 2 sample_cell_draws = Inr xs
          \<and> length xs = 4
          \<and> map intersection_id xs = [''INT-0000'', ''INT-0001'', ''INT-0100'', ''INT-0101'']
          \<and> distinct (map intersection_id xs))"
proof -
  obtain xs where xs: "generate_intersections sample_center 2 sample_cell_draws = Inr xs"
    and len: "int (length xs) = 2 * 2"
    and ids: "\<forall>i<nat 2. \<forall>j<nat 2.
      intersection_id (xs ! (i * nat 2 + j)) = ''INT-'' @ format_02d i @ format_02d j"
    and d: "distinct (map intersection_id xs)"
    using grid_ids_distinct[of 2 sample_center sample_cell_draws] by auto
  have l4: "length xs = 4" using len by simp
  have "intersection_id (xs ! 0) = ''INT-0000''" "intersection_id (xs ! 1) = ''INT-0001''"
    "intersection_id (xs ! 2) = ''INT-0100''" "intersection_id (xs ! 3) = ''INT-0101''"
    using ids[rule_format, of 0 0] ids[rule_format, of 0 1]
      ids[rule_format, of 1 0] ids[rule_format, of 1 1]
    by (simp_all add: format_02d_two_digits digit_char_def)
  then have "map intersection_id xs = [''INT-0000'', ''INT-0001'', ''INT-0100'', ''INT-0101'']"
    using l4 by (auto simp: list_eq_iff_nth_eq less_Suc_eq numeral_eq_Suc)
  with xs l4 d show ?thesis by simp
qed

theorem grid_ids_collide_counterexample:
  "\<not> isl (generate_intersections sample_center 102 sample_cell_draws)
   \<and> intersection_id
        (projr (generate_intersections sample_center 102 sample_cell_draws) ! (10 * 102 + 100))
       = ''INT-10100''
   \<and> intersection_id
        (projr (generate_intersections sample_center 102 sample_cell_draws) ! (101 * 102 + 0))
       = ''INT-10100''
   \<and> \<not> distinct (map intersection_id
                    (projr (generate_intersections sample_center 102 sample_cell_draws)))"
proof -
  have le: "(102::int) \<le> 1114047" by simp
  obtain xs where xs: "generate_intersections sample_center 102 sample_cell_draws = Inr xs"
    by (simp add: generate_intersections_Inr[OF le])
  have len: "length xs = 102 * 102"
    using generate_intersections_length[OF xs le] by simp
  have a: "intersection_id (xs ! (10 * 102 + 100)) = ''INT-10100''"
    using generate_intersections_cell(1)[OF xs le, of 10 100]
    by (simp add: format_02d_100 format_02d_two_digits digit_char_def)
  have b: "intersection_id (xs ! (101 * 102 + 0)) = ''INT-10100''"
    using generate_intersections_cell(1)[OF xs le, of 101 0]
    by (simp add: format_02d_101 format_02d_two_digits digit_char_def)
  have "\<not> distinct (map intersection_id xs)"
  proof
    assume "distinct (map intersection_id xs)"
    moreover have "(1120::nat) < length (map intersection_id xs)"
      "(10302::nat) < length (map intersection_id xs)" using len by simp_all
    moreover have "map intersection_id xs ! 1120 = map intersection_id xs ! 10302"
      using a b len by simp
    ultimately have "(1120::nat) = 10302" by (simp only: nth_eq_iff_index_eq)
    then show False by simp
  qed
  with xs a b show ?thesis by simp
qed

text \<open>
  The district of a cell is a function of its indices alone: two runs of the grid
  builder, with any centres, sizes and draws, give the cell \<open>(i, j)\<close> the same district.
\<close>

lemma grid_district_pure:
  assumes "generate_intersections center N draws = Inr xs"
    and "generate_intersections center' N draws' = Inr ys"
    and "N \<le> 1114047" and "i < nat N" and "j < nat N"
  shows "district (xs ! (i * nat N + j)) = district (ys ! (i * nat N + j))"
    and "district (xs ! (i * nat N + j)) = cell_district i j"
  using generate_intersections_cell(2)[OF assms(1,3,4,5)]
    generate_intersections_cell(2)[OF assms(2,3,4,5)]
  by simp_all

lemma spec_cell_district_squares:
  "spec_cell_district N i j =
     (let d2 = (real i - real_of_int N / 2) ^ 2 + (real j - real_of_int N / 2) ^ 2 in
      if d2 < 9 then ''downtown''
      else if d2 < 25 then ''residential''
      else if d2 < 49 then ''industrial''
      else ''suburban'')"
  by (simp add: spec_cell_district_def spec_center_distance_def Let_def sqrt_less_iff_square)

text \<open>
  Claim C1. The rule of the claim measures the distance from the centre of the grid; the
  source measures \<open>sqrt(i**2 + j**2)\<close>, the distance from the cell \<open>(0, 0)\<close> in the corner.
  In the grid of size 10 the cell \<open>(5, 5)\<close> at the centre is labelled suburban by the
  source and downtown by the rule, and the corner cell \<open>(0, 0)\<close> is labelled downtown by
  the source and suburban by the rule.
\<close>

theorem district_measured_from_corner:
  "cell_district 5 5 = ''suburban'' \<and> spec_cell_district 10 5 5 = ''downtown''
   \<and> cell_district 0 0 = ''downtown'' \<and> spec_cell_district 10 0 0 = ''suburban''
   \<and> \<not> isl (generate_intersections sample_center 10 sample_cell_draws)
   \<and> district (projr (generate_intersections sample_center 10 sample_cell_draws) ! (5 * 10 + 5))
       = ''suburban''"
proof -
  have le: "(10::int) \<le> 1114047" by simp
  obtain xs where xs: "generate_intersections sample_center 10 sample_cell_draws = Inr xs"
    by (simp add: generate_intersections_Inr[OF le])
  have c55: "cell_district 5 5 = ''suburban''" by (simp add: cell_district_squares)
  have c00: "cell_district 0 0 = ''downtown''" by (simp add: cell_district_squares)
  have s55: "spec_cell_district 10 5 5 = ''downtown''"
    by (simp add: spec_cell_district_squares)
  have s00: "spec_cell_district 10 0 0 = ''suburban''"
    by (simp add: spec_cell_district_squares)
  have "district (xs ! (5 * 10 + 5)) = cell_district 5 5"
    using generate_intersections_cell(2)[OF xs le, of 5 5] by simp
  with xs c55 c00 s55 s00 show ?thesis by simp
qed

end
